theory Spec2Isabelle
  imports Complex_Main "HOL-Library.Word"
begin

section \<open>JavaScript strings and buffers\<close>

text \<open>
  A \<^verbatim>\<open>Buffer\<close> is a sequence of bytes; a JavaScript string is a sequence of UTF-16 code
  units, and \<^verbatim>\<open>length\<close>, \<^verbatim>\<open>slice\<close>, \<^verbatim>\<open>trim\<close> and \<^verbatim>\<open>split\<close> all count code units.
  Code points (needed by the \<^verbatim>\<open>u\<close>-flagged regular expression of \<^verbatim>\<open>isGarbageLine\<close> and by
  the UTF-8 decoder) are natural numbers.
\<close>

type_synonym byte = "8 word"
type_synonym jschar = "16 word"
type_synonym jsstring = "jschar list"

text \<open>ASCII literals, to write test inputs readably.\<close>

definition js :: "string \<Rightarrow> jsstring" where
  "js s = map (\<lambda>c. of_nat (of_char c)) s"

definition ascii_bytes :: "string \<Rightarrow> byte list" where
  "ascii_bytes s = map (\<lambda>c. of_nat (of_char c)) s"

text \<open>
  The characters removed by \<^verbatim>\<open>String.prototype.trim\<close> and matched by \<^verbatim>\<open>\s\<close>: ECMAScript's
  WhiteSpace (TAB, VT, FF, SP, NBSP, ZWNBSP and the category Zs) and LineTerminator
  (LF, CR, LS, PS).
\<close>

definition isWhiteSpace :: "jschar \<Rightarrow> bool" where
  "isWhiteSpace c \<longleftrightarrow>
     c = 0x09 \<or> c = 0x0A \<or> c = 0x0B \<or> c = 0x0C \<or> c = 0x0D \<or> c = 0x20 \<or> c = 0xA0 \<or>
     c = 0x1680 \<or> (0x2000 \<le> c \<and> c \<le> 0x200A) \<or> c = 0x2028 \<or> c = 0x2029 \<or>
     c = 0x202F \<or> c = 0x205F \<or> c = 0x3000 \<or> c = 0xFEFF"

definition trim :: "jsstring \<Rightarrow> jsstring" where
  "trim s = rev (dropWhile isWhiteSpace (rev (dropWhile isWhiteSpace s)))"

text \<open>
  \<^verbatim>\<open>s.split(sep)\<close> for a string separator: the successive non-overlapping occurrences of
  \<^verbatim>\<open>sep\<close>, searched from the left, cut \<^verbatim>\<open>s\<close>; an empty separator cuts between all code
  units.
\<close>

function js_split :: "jsstring \<Rightarrow> jsstring \<Rightarrow> jsstring list" where
  "js_split sep [] = (if sep = [] then [] else [[]])"
| "js_split sep (c # cs) =
     (if sep = [] then map (\<lambda>x. [x]) (c # cs)
      else if take (length sep) (c # cs) = sep
      then [] # js_split sep (drop (length sep) (c # cs))
      else (case js_split sep cs of
              [] \<Rightarrow> [[c]]
            | l # ls \<Rightarrow> (c # l) # ls))"
  by pat_completeness auto
termination
  by (relation "measure (\<lambda>(sep, s). length s)") auto

text \<open>\<^verbatim>\<open>parts.join(sep)\<close>.\<close>

fun js_join :: "jsstring \<Rightarrow> jsstring list \<Rightarrow> jsstring" where
  "js_join sep [] = []"
| "js_join sep [x] = x"
| "js_join sep (x # y # ys) = x @ sep @ js_join sep (y # ys)"

text \<open>
  \<^verbatim>\<open>s.slice(b, e)\<close>: a negative index counts from the end, both indices are clamped to the
  string, and an empty string results when the end is not after the beginning.
\<close>

definition js_slice :: "jsstring \<Rightarrow> int \<Rightarrow> int \<Rightarrow> jsstring" where
  "js_slice s b e =
     (let len = int (length s);
          from = (if b < 0 then max (len + b) 0 else min b len);
          to = (if e < 0 then max (len + e) 0 else min e len)
      in take (nat (to - from)) (drop (nat from) s))"

subsection \<open>Lossy UTF-8 decoding\<close>

text \<open>
  \<^verbatim>\<open>buffer.toString("utf-8")\<close> is the runtime's decoder, not code of the repository. It is
  modelled after the UTF-8 decoder of the Encoding Standard, which the runtime implements:
  every maximal ill-formed subsequence becomes one U+FFFD, a byte that cannot continue a
  sequence is decoded again as the start of the next one, and nothing is ever thrown.
  The state is the number of continuation bytes still needed, the code point collected so
  far, and the range allowed for the next continuation byte. No property below depends on
  how ill-formed input is replaced.
\<close>

fun utf8_code_points :: "nat \<Rightarrow> nat \<Rightarrow> byte \<Rightarrow> byte \<Rightarrow> byte list \<Rightarrow> nat list" where
  "utf8_code_points needed cp lo hi [] = (if needed = 0 then [] else [0xFFFD])"
| "utf8_code_points needed cp lo hi (b # bs) =
     (if needed = 0 then
        (if b \<le> 0x7F then unat b # utf8_code_points 0 0 0x80 0xBF bs
         else if 0xC2 \<le> b \<and> b \<le> 0xDF then
           utf8_code_points 1 (unat b mod 32) 0x80 0xBF bs
         else if 0xE0 \<le> b \<and> b \<le> 0xEF then
           utf8_code_points 2 (unat b mod 16)
             (if b = 0xE0 then 0xA0 else 0x80) (if b = 0xED then 0x9F else 0xBF) bs
         else if 0xF0 \<le> b \<and> b \<le> 0xF4 then
           utf8_code_points 3 (unat b mod 8)
             (if b = 0xF0 then 0x90 else 0x80) (if b = 0xF4 then 0x8F else 0xBF) bs
         else 0xFFFD # utf8_code_points 0 0 0x80 0xBF bs)
      else if b < lo \<or> hi < b then 0xFFFD # utf8_code_points 0 0 0x80 0xBF (b # bs)
      else (let cp' = cp * 64 + unat b mod 64 in
            if needed = 1 then cp' # utf8_code_points 0 0 0x80 0xBF bs
            else utf8_code_points (needed - 1) cp' 0x80 0xBF bs))"

definition utf16_units :: "nat \<Rightarrow> jsstring" where
  "utf16_units cp =
     (if cp < 0x10000 then [of_nat cp]
      else [of_nat (0xD800 + (cp - 0x10000) div 0x400),
            of_nat (0xDC00 + (cp - 0x10000) mod 0x400)])"

definition toString_utf8 :: "byte list \<Rightarrow> jsstring" where
  "toString_utf8 data = concat (map utf16_units (utf8_code_points 0 0 0x80 0xBF data))"

section \<open>The readable-text extractor (\<^verbatim>\<open>src/apple-notes-db.ts\<close>)\<close>

subsection \<open>\<^verbatim>\<open>isGarbageLine\<close>\<close>

text \<open>The character class \<^verbatim>\<open>[*JgG,\s\d\-\.]\<close> of the marker test.\<close>

definition marker_char :: "jschar \<Rightarrow> bool" where
  "marker_char c \<longleftrightarrow>
     c = 0x2A \<or> c = 0x4A \<or> c = 0x67 \<or> c = 0x47 \<or> c = 0x2C \<or> isWhiteSpace c \<or>
     (0x30 \<le> c \<and> c \<le> 0x39) \<or> c = 0x2D \<or> c = 0x2E"

text \<open>\<^verbatim>\<open>/^[*JgG,\s\d\-\.]+$/.test(line)\<close>: one or more characters, all of the class.\<close>

definition marker_test :: "jsstring \<Rightarrow> bool" where
  "marker_test line \<longleftrightarrow> line \<noteq> [] \<and> list_all marker_char line"

text \<open>
  The code points that the negated class of the pattern behind \<^verbatim>\<open>cleanLine\<close> leaves in
  place: U+0020 to U+007E, U+00A0 to U+024F, U+1E00 to U+1EFF, U+2000 to U+206F, U+2600 to
  U+27BF, U+FE00 to U+FE0F and U+1F300 to U+1F9FF. Every other code point is replaced by
  the empty string.
\<close>

definition printable_cp :: "nat \<Rightarrow> bool" where
  "printable_cp cp \<longleftrightarrow>
     (0x20 \<le> cp \<and> cp \<le> 0x7E) \<or> (0xA0 \<le> cp \<and> cp \<le> 0x24F) \<or>
     (0x1E00 \<le> cp \<and> cp \<le> 0x1EFF) \<or> (0x2000 \<le> cp \<and> cp \<le> 0x206F) \<or>
     (0x2600 \<le> cp \<and> cp \<le> 0x27BF) \<or> (0xFE00 \<le> cp \<and> cp \<le> 0xFE0F) \<or>
     (0x1F300 \<le> cp \<and> cp \<le> 0x1F9FF)"

definition is_high_surrogate :: "jschar \<Rightarrow> bool" where
  "is_high_surrogate c \<longleftrightarrow> 0xD800 \<le> c \<and> c \<le> 0xDBFF"

definition is_low_surrogate :: "jschar \<Rightarrow> bool" where
  "is_low_surrogate c \<longleftrightarrow> 0xDC00 \<le> c \<and> c \<le> 0xDFFF"

definition surrogate_cp :: "jschar \<Rightarrow> jschar \<Rightarrow> nat" where
  "surrogate_cp h l = 0x10000 + (unat h - 0xD800) * 0x400 + (unat l - 0xDC00)"

text \<open>
  \<^verbatim>\<open>line.replace(/[^...]/gu, "")\<close>. With the \<^verbatim>\<open>u\<close> flag the pattern consumes one code
  point at a time: a high surrogate followed by a low surrogate is one code point of two
  code units, any other code unit (a lone surrogate too) is a code point by itself.
\<close>

fun remove_unprintable :: "jsstring \<Rightarrow> jsstring" where
  "remove_unprintable [] = []"
| "remove_unprintable [c] = (if printable_cp (unat c) then [c] else [])"
| "remove_unprintable (h # l # rest) =
     (if is_high_surrogate h \<and> is_low_surrogate l then
        (if printable_cp (surrogate_cp h l) then h # l # remove_unprintable rest
         else remove_unprintable rest)
      else
        (if printable_cp (unat h) then h # remove_unprintable (l # rest)
         else remove_unprintable (l # rest)))"

text \<open>
  The quotient \<^verbatim>\<open>cleanLine.length / line.length\<close> and the thresholds are doubles in the
  source. The model compares them as rationals. The two comparisons agree for every line
  a runtime can hold: a line shorter than 10 code units has quotient 1 or at most 8/9, and
  for a longer line of \<open>n\<close> code units the quotient is either exactly 9/10, which rounds to
  the double of the literal \<^verbatim>\<open>0.90\<close>, or at least \<open>1/(10n)\<close> away from it.
\<close>

definition isGarbageLine :: "jsstring \<Rightarrow> bool" where
  "isGarbageLine line =
     (if length line < 3 then True
      else if marker_test line then True
      else (let cleanLine = remove_unprintable line;
                threshold = (if length line < 10 then 98 / 100 else 90 / 100 :: rat)
            in rat_of_nat (length cleanLine) / rat_of_nat (length line) < threshold))"

subsection \<open>\<^verbatim>\<open>extractTextFromProtobuf\<close>\<close>

text \<open>The class \<^verbatim>\<open>[\x00-\x08\x0B\x0C\x0E-\x1F]\<close>.\<close>

definition is_control :: "jschar \<Rightarrow> bool" where
  "is_control c \<longleftrightarrow> c \<le> 0x08 \<or> c = 0x0B \<or> c = 0x0C \<or> (0x0E \<le> c \<and> c \<le> 0x1F)"

text \<open>The pipeline that produces \<^verbatim>\<open>lines\<close>: two replacements, split, trim, filter.\<close>

definition candidate_lines :: "jsstring \<Rightarrow> jsstring list" where
  "candidate_lines str =
     filter (\<lambda>line. length line > 0)
       (map trim
          (js_split [0x0A]
             (filter (\<lambda>c. c \<noteq> 0xFFFD)
                (map (\<lambda>c. if is_control c then 0x0A else c) str))))"

text \<open>
  The \<^verbatim>\<open>for\<close> loop over \<^verbatim>\<open>lines\<close>, with its two variables \<^verbatim>\<open>consecutiveGarbageCount\<close>
  and \<^verbatim>\<open>goodLines\<close>; \<^verbatim>\<open>break\<close> returns the lines collected so far.
\<close>

definition maxConsecutiveGarbage :: nat where
  "maxConsecutiveGarbage = 3"

fun scan_lines :: "jsstring list \<Rightarrow> nat \<Rightarrow> jsstring list \<Rightarrow> jsstring list" where
  "scan_lines [] consecutiveGarbageCount goodLines = goodLines"
| "scan_lines (line # rest) consecutiveGarbageCount goodLines =
     (if isGarbageLine line then
        (if consecutiveGarbageCount + 1 \<ge> maxConsecutiveGarbage then goodLines
         else scan_lines rest (consecutiveGarbageCount + 1) goodLines)
      else scan_lines rest 0 (goodLines @ [line]))"

definition extractTextFromProtobuf :: "byte list \<Rightarrow> jsstring" where
  "extractTextFromProtobuf data =
     trim (js_join [0x0A] (scan_lines (candidate_lines (toString_utf8 data)) 0 []))"

subsection \<open>\<^verbatim>\<open>parseNoteContent\<close>\<close>

text \<open>
  \<^verbatim>\<open>pako.ungzip\<close> is a library function; it is a parameter of the model. It either throws
  (\<open>Inl\<close>) or returns the decompressed bytes. A call that returns no result is an \<open>Inl\<close> as
  well: \<^verbatim>\<open>Buffer.from\<close> throws on it, inside the same \<^verbatim>\<open>try\<close> block.
\<close>

datatype js_error = Thrown

type_synonym gunzip = "byte list \<Rightarrow> js_error + byte list"

text \<open>\<^verbatim>\<open>buffer[0] === 0x1f && buffer[1] === 0x8b\<close>; a read past the end is \<^verbatim>\<open>undefined\<close>.\<close>

definition gzip_magic :: "byte list \<Rightarrow> bool" where
  "gzip_magic buffer = (case buffer of b0 # b1 # _ \<Rightarrow> b0 = 0x1F \<and> b1 = 0x8B | _ \<Rightarrow> False)"

text \<open>The body of the \<^verbatim>\<open>try\<close> block, then the function with its \<^verbatim>\<open>catch\<close>.\<close>

definition parseNoteContent_try :: "gunzip \<Rightarrow> byte list \<Rightarrow> js_error + jsstring" where
  "parseNoteContent_try ungzip buffer =
     (if gzip_magic buffer then
        (case ungzip buffer of
           Inl e \<Rightarrow> Inl e
         | Inr decompressed \<Rightarrow> Inr (extractTextFromProtobuf decompressed))
      else Inr (toString_utf8 buffer))"

definition parseNoteContent :: "gunzip \<Rightarrow> byte list option \<Rightarrow> jsstring" where
  "parseNoteContent ungzip data =
     (case data of
        None \<Rightarrow> []
      | Some buffer \<Rightarrow>
          (case parseNoteContent_try ungzip buffer of
             Inl error \<Rightarrow> []
           | Inr text \<Rightarrow> text))"

section \<open>The chunker (\<^verbatim>\<open>src/text-chunker.ts\<close>)\<close>

text \<open>
  The options \<^verbatim>\<open>maxChunkSize\<close> and \<^verbatim>\<open>overlap\<close> are JavaScript numbers; the model takes
  them as integers of either sign, since nothing on the way from the environment to
  \<^verbatim>\<open>chunkText\<close> checks them.
\<close>

text \<open>\<^verbatim>\<open>searchText.search(/[.!?]\s/)\<close>: the index of the first match, or \<open>-1\<close>.\<close>

fun search_sentence_end :: "jsstring \<Rightarrow> int" where
  "search_sentence_end (a # b # rest) =
     (if (a = 0x2E \<or> a = 0x21 \<or> a = 0x3F) \<and> isWhiteSpace b then 0
      else (let r = search_sentence_end (b # rest) in if r = -1 then -1 else r + 1))"
| "search_sentence_end _ = -1"

text \<open>The value of \<^verbatim>\<open>end\<close> when the chunk is cut, for the cursor \<^verbatim>\<open>start\<close>.\<close>

definition window_end :: "jsstring \<Rightarrow> int \<Rightarrow> int \<Rightarrow> int" where
  "window_end text maxChunkSize start =
     (let end0 = min (start + maxChunkSize) (int (length text)) in
      if end0 < int (length text) then
        (let searchStart = max (end0 - 200) start;
             searchText = js_slice text searchStart end0;
             sentenceEnd = search_sentence_end searchText
         in if sentenceEnd \<noteq> -1 then searchStart + sentenceEnd + 2 else end0)
      else end0)"

text \<open>The next value of the cursor.\<close>

definition next_start :: "int \<Rightarrow> int \<Rightarrow> int \<Rightarrow> int" where
  "next_start end1 overlap start =
     (let nextStart = end1 - overlap in if nextStart \<le> start then end1 else nextStart)"

text \<open>
  The \<^verbatim>\<open>while\<close> loop. Nothing bounds the number of its iterations a priori, so it is a
  partial function: \<open>None\<close> is a loop that never ends.
\<close>

partial_function (option)
  chunk_loop :: "jsstring \<Rightarrow> int \<Rightarrow> int \<Rightarrow> int \<Rightarrow> jsstring list \<Rightarrow> jsstring list option"
where
  "chunk_loop text maxChunkSize overlap start chunks =
     (if start < int (length text) then
        (let end1 = window_end text maxChunkSize start;
             chunk = trim (js_slice text start end1);
             chunks1 = (if length chunk > 0 then chunks @ [chunk] else chunks)
         in if end1 \<ge> int (length text) then Some chunks1
            else chunk_loop text maxChunkSize overlap (next_start end1 overlap start) chunks1)
      else Some chunks)"

record ChunkOptions =
  maxChunkSize :: int
  overlap :: int

definition DEFAULT_OPTIONS :: ChunkOptions where
  "DEFAULT_OPTIONS = \<lparr>maxChunkSize = 1000, overlap = 100\<rparr>"

definition chunkText :: "jsstring \<Rightarrow> ChunkOptions \<Rightarrow> jsstring list option" where
  "chunkText text options =
     (if text = [] \<or> length (trim text) = 0 then Some []
      else if int (length text) \<le> maxChunkSize options then Some [text]
      else chunk_loop text (maxChunkSize options) (overlap options) 0 [])"

section \<open>Rank fusion (\<^verbatim>\<open>searchAndCombineResults\<close> in \<^verbatim>\<open>index.ts\<close>)\<close>

text \<open>
  A row of the search index, as \<^verbatim>\<open>indexNotes\<close> writes it and as both searches return it.
\<close>

record chunk_row =
  chunk_id :: jsstring
  title :: jsstring
  content :: jsstring
  creation_date :: jsstring
  modification_date :: jsstring

text \<open>The template literal \<^verbatim>\<open>`${result.title}::${result.content}`\<close>.\<close>

definition key_separator :: jsstring where
  "key_separator = [0x3A, 0x3A]"

definition result_key :: "chunk_row \<Rightarrow> jsstring" where
  "result_key result = title result @ key_separator @ content result"

text \<open>
  The numbers of the source are IEEE 754 doubles. Every double that the merger computes is
  finite, hence a rational number, and is represented by its value; an operation of the
  source is the exact operation followed by \<open>to_double\<close>, the rounding to the nearest
  number with a significand of 53 bits, a tie going to the even significand. For positive
  integers \<open>p\<close> and \<open>q\<close>, \<open>bit_length\<close> gives the exponent \<open>e\<close> with
  \<open>2 ^ e \<le> p / q < 2 ^ (e + 1)\<close>, and the significand is the quotient scaled by
  \<open>2 ^ (52 - e)\<close> and rounded to an integer. The range of the exponent is not limited: the
  scores lie between \<open>1 / (60 + n)\<close>, for lists of \<open>n\<close> items, and \<open>(2 * n) / 60\<close>, far
  from overflow and from the subnormal numbers, and a difference of two doubles that is
  not zero is rounded to a number of its sign with or without the limits.
\<close>

function bit_length :: "int \<Rightarrow> nat" where
  "bit_length n = (if n \<le> 0 then 0 else Suc (bit_length (n div 2)))"
  by pat_completeness auto
termination
  by (relation "measure nat") auto

declare bit_length.simps [simp del]

definition round_half_even :: "int \<Rightarrow> int \<Rightarrow> int" where
  "round_half_even num den =
     (let m = num div den; r = num mod den
      in if 2 * r < den then m else if den < 2 * r then m + 1
         else if even m then m else m + 1)"

definition double_of_ratio :: "int \<Rightarrow> int \<Rightarrow> rat" where
  "double_of_ratio p q =
     (let e0 = int (bit_length p) - int (bit_length q);
          e = (if rat_of_int q * 2 powi e0 \<le> rat_of_int p then e0 else e0 - 1);
          s = 52 - e;
          m = (if 0 \<le> s then round_half_even (p * 2 ^ nat s) q
               else round_half_even p (q * 2 ^ nat (- s)))
      in rat_of_int m * 2 powi (- s))"

definition to_double :: "rat \<Rightarrow> rat" where
  "to_double x =
     (let (p, q) = quotient_of x
      in if p = 0 then 0
         else if 0 < p then double_of_ratio p q
         else - double_of_ratio (- p) q)"

text \<open>
  \<^verbatim>\<open>scores\<close> is a \<^verbatim>\<open>Map\<close>, which iterates in the order of first insertion: an association
  list with one entry per key, where \<^verbatim>\<open>set\<close> on a present key keeps its position.
\<close>

type_synonym score_map = "(jsstring \<times> rat) list"

definition scores_get :: "score_map \<Rightarrow> jsstring \<Rightarrow> rat option" where
  "scores_get scores key = map_of scores key"

fun scores_set :: "jsstring \<Rightarrow> rat \<Rightarrow> score_map \<Rightarrow> score_map" where
  "scores_set key v [] = [(key, v)]"
| "scores_set key v ((k, w) # rest) =
     (if k = key then (k, v) # rest else (k, w) # scores_set key v rest)"

text \<open>\<^verbatim>\<open>x || 0\<close> on a number or \<^verbatim>\<open>undefined\<close>.\<close>

definition or_zero :: "rat option \<Rightarrow> rat" where
  "or_zero x = (case x of None \<Rightarrow> 0 | Some v \<Rightarrow> if v = 0 then 0 else v)"

definition k :: nat where
  "k = 60"

text \<open>
  \<^verbatim>\<open>results.forEach((result, idx) => ...)\<close>, from the index \<open>idx\<close> on. The division and
  the addition are rounded by \<open>rnd\<close>: by \<open>to_double\<close> in the program, and by nothing
  (\<open>\<lambda>x. x\<close>) for the exact sums of which the specification speaks. The sum
  \<^verbatim>\<open>k + startRank + idx\<close> is a small integer and exact in both.
\<close>

fun processResults_from ::
  "(rat \<Rightarrow> rat) \<Rightarrow> nat \<Rightarrow> chunk_row list \<Rightarrow> nat \<Rightarrow> score_map \<Rightarrow> score_map" where
  "processResults_from rnd idx [] startRank scores = scores"
| "processResults_from rnd idx (result # rest) startRank scores =
     (let key = result_key result;
          score = rnd (1 / rat_of_nat (k + startRank + idx))
      in processResults_from rnd (idx + 1) rest startRank
           (scores_set key (rnd (or_zero (scores_get scores key) + score)) scores))"

definition processResults ::
  "(rat \<Rightarrow> rat) \<Rightarrow> chunk_row list \<Rightarrow> nat \<Rightarrow> score_map \<Rightarrow> score_map" where
  "processResults rnd results startRank scores =
     processResults_from rnd 0 results startRank scores"

text \<open>
  \<^verbatim>\<open>Array.prototype.sort\<close> with a comparator is a stable sort; for a comparator that is a
  consistent order its result is the one of the stable insertion sort below, which puts \<open>x\<close>
  before the first \<open>y\<close> with \<open>cmp x y \<le> 0\<close>.
\<close>

fun insert_sorted :: "('a \<Rightarrow> 'a \<Rightarrow> rat) \<Rightarrow> 'a \<Rightarrow> 'a list \<Rightarrow> 'a list" where
  "insert_sorted cmp x [] = [x]"
| "insert_sorted cmp x (y # ys) =
     (if cmp x y \<le> 0 then x # y # ys else y # insert_sorted cmp x ys)"

definition js_sort :: "('a \<Rightarrow> 'a \<Rightarrow> rat) \<Rightarrow> 'a list \<Rightarrow> 'a list" where
  "js_sort cmp xs = foldr (insert_sorted cmp) xs []"

text \<open>
  \<^verbatim>\<open>const [title, content] = key.split("::")\<close>: the first two segments, \<^verbatim>\<open>undefined\<close>
  (\<open>None\<close>) for a segment that does not exist.
\<close>

record found =
  found_title :: "jsstring option"
  found_content :: "jsstring option"

definition split_key :: "jsstring \<Rightarrow> found" where
  "split_key key =
     (case js_split key_separator key of
        [] \<Rightarrow> \<lparr>found_title = None, found_content = None\<rparr>
      | [t] \<Rightarrow> \<lparr>found_title = Some t, found_content = None\<rparr>
      | t # c # _ \<Rightarrow> \<lparr>found_title = Some t, found_content = Some c\<rparr>)"

text \<open>
  The scores after both lists were processed: with the arithmetic \<open>rnd\<close>, in exact
  arithmetic (\<open>fused_scores\<close>), and as the program computes them (\<open>double_scores\<close>). The
  two lists are what the vector search and the full-text search of the table return.
\<close>

definition scores_with :: "(rat \<Rightarrow> rat) \<Rightarrow> chunk_row list \<Rightarrow> chunk_row list \<Rightarrow> score_map" where
  "scores_with rnd vectorResults ftsSearchResults =
     processResults rnd ftsSearchResults 0 (processResults rnd vectorResults 0 [])"

definition fused_scores :: "chunk_row list \<Rightarrow> chunk_row list \<Rightarrow> score_map" where
  "fused_scores vectorResults ftsSearchResults =
     scores_with (\<lambda>x. x) vectorResults ftsSearchResults"

definition double_scores :: "chunk_row list \<Rightarrow> chunk_row list \<Rightarrow> score_map" where
  "double_scores vectorResults ftsSearchResults =
     scores_with to_double vectorResults ftsSearchResults"

text \<open>
  The entries of the program's scores, sorted with the comparator \<^verbatim>\<open>([, a], [, b]) => b - a\<close>,
  whose subtraction is one of doubles, and cut at \<^verbatim>\<open>limit\<close>, which is a count; then the
  function itself.
\<close>

definition top_entries :: "chunk_row list \<Rightarrow> chunk_row list \<Rightarrow> nat \<Rightarrow> (jsstring \<times> rat) list" where
  "top_entries vectorResults ftsSearchResults limit =
     take limit
       (js_sort (\<lambda>(_, a) (_, b). to_double (b - a))
          (double_scores vectorResults ftsSearchResults))"

definition searchAndCombineResults :: "chunk_row list \<Rightarrow> chunk_row list \<Rightarrow> nat \<Rightarrow> found list" where
  "searchAndCombineResults vectorResults ftsSearchResults limit =
     map (\<lambda>(key, _). split_key key) (top_entries vectorResults ftsSearchResults limit)"

text \<open>The identity key of a returned pair, formed as the merger forms it.\<close>

definition found_key :: "found \<Rightarrow> jsstring option" where
  "found_key f =
     (case (found_title f, found_content f) of
        (Some t, Some c) \<Rightarrow> Some (t @ key_separator @ c)
      | _ \<Rightarrow> None)"

section \<open>Indexing (\<^verbatim>\<open>getAllNotesWithContent\<close> and \<^verbatim>\<open>indexNotes\<close>)\<close>

text \<open>
  A row of the query of \<^verbatim>\<open>getAllNotesWithContent\<close>. Its \<^verbatim>\<open>WHERE\<close> clause keeps the rows
  with a title only; the other columns may be \<^verbatim>\<open>NULL\<close>, the content also because of the
  left join.
\<close>

record note_row =
  row_id :: int
  row_title :: jsstring
  row_snippet :: "jsstring option"
  row_creationDate :: "int option"
  row_modificationDate :: "int option"
  row_folderId :: "int option"
  row_content :: "byte list option"

text \<open>\<^verbatim>\<open>AppleNote\<close>; a \<^verbatim>\<open>Date\<close> is its number of milliseconds since the Unix epoch.\<close>

record AppleNote =
  note_id :: int
  note_title :: jsstring
  snippet :: jsstring
  note_content :: jsstring
  creationDate :: int
  modificationDate :: int
  folderId :: "int option"
  folderName :: "jsstring option"

definition coreDataTimestampToDate :: "int option \<Rightarrow> int" where
  "coreDataTimestampToDate timestamp =
     (case timestamp of
        None \<Rightarrow> 0
      | Some t \<Rightarrow> if t = 0 then 0 else 978307200000 + t * 1000)"

text \<open>\<^verbatim>\<open>s || d\<close> on a string: the empty string is falsy.\<close>

definition or_string :: "jsstring option \<Rightarrow> jsstring \<Rightarrow> jsstring" where
  "or_string s d = (case s of None \<Rightarrow> d | Some v \<Rightarrow> if v = [] then d else v)"

definition note_of_row :: "gunzip \<Rightarrow> note_row \<Rightarrow> AppleNote" where
  "note_of_row ungzip row =
     \<lparr>note_id = row_id row,
      note_title = or_string (Some (row_title row)) (js ''Untitled''),
      snippet = or_string (row_snippet row) [],
      note_content = parseNoteContent ungzip (row_content row),
      creationDate = coreDataTimestampToDate (row_creationDate row),
      modificationDate = coreDataTimestampToDate (row_modificationDate row),
      folderId = row_folderId row,
      folderName = None\<rparr>"

definition getAllNotesWithContent :: "gunzip \<Rightarrow> note_row list \<Rightarrow> AppleNote list" where
  "getAllNotesWithContent ungzip rows = map (note_of_row ungzip) rows"

record Config =
  embeddingsModel :: jsstring
  chunkSize :: int
  chunkOverlap :: int
  dbPath :: jsstring

text \<open>The decimal numeral of \<^verbatim>\<open>`${chunkIndex++}`\<close>.\<close>

fun decimal :: "nat \<Rightarrow> jsstring" where
  "decimal n = (if n < 10 then [of_nat (48 + n)] else decimal (n div 10) @ [of_nat (48 + n mod 10)])"

declare decimal.simps [simp del]

text \<open>
  The state of the loop of \<^verbatim>\<open>indexNotes\<close> is the array \<^verbatim>\<open>chunks\<close> and the counter
  \<^verbatim>\<open>chunkIndex\<close>. \<^verbatim>\<open>Date.prototype.toLocaleString\<close> depends on the locale of the process and
  is a parameter. First the inner loop over \<^verbatim>\<open>contentChunks\<close>, then the body of the outer
  loop for one note, then the outer loop, which does not return when a call of
  \<^verbatim>\<open>chunkText\<close> does not.
\<close>

type_synonym index_state = "chunk_row list \<times> nat"

fun push_content_chunks ::
  "(int \<Rightarrow> jsstring) \<Rightarrow> AppleNote \<Rightarrow> jsstring list \<Rightarrow> index_state \<Rightarrow> index_state" where
  "push_content_chunks toLocaleString note [] (chunks, chunkIndex) = (chunks, chunkIndex)"
| "push_content_chunks toLocaleString note (contentChunk # rest) (chunks, chunkIndex) =
     push_content_chunks toLocaleString note rest
       (chunks @ [\<lparr>chunk_id = decimal chunkIndex,
                   title = note_title note,
                   content = contentChunk,
                   creation_date = toLocaleString (creationDate note),
                   modification_date = toLocaleString (modificationDate note)\<rparr>],
        chunkIndex + 1)"

definition index_note ::
  "(int \<Rightarrow> jsstring) \<Rightarrow> AppleNote \<Rightarrow> jsstring list \<Rightarrow> index_state \<Rightarrow> index_state" where
  "index_note toLocaleString note contentChunks st =
     (if length contentChunks = 0 then
        (fst st @ [\<lparr>chunk_id = decimal (snd st),
                    title = note_title note,
                    content = note_title note,
                    creation_date = toLocaleString (creationDate note),
                    modification_date = toLocaleString (modificationDate note)\<rparr>],
         snd st + 1)
      else push_content_chunks toLocaleString note contentChunks st)"

fun index_loop ::
  "(int \<Rightarrow> jsstring) \<Rightarrow> Config \<Rightarrow> AppleNote list \<Rightarrow> index_state \<Rightarrow> index_state option" where
  "index_loop toLocaleString config [] st = Some st"
| "index_loop toLocaleString config (note # rest) st =
     (case chunkText (note_content note)
             \<lparr>maxChunkSize = chunkSize config, overlap = chunkOverlap config\<rparr> of
        None \<Rightarrow> None
      | Some contentChunks \<Rightarrow>
          index_loop toLocaleString config rest (index_note toLocaleString note contentChunks st))"

text \<open>
  \<^verbatim>\<open>indexNotes\<close>, on the rows that the note store holds: the result is the array handed to
  \<^verbatim>\<open>notesTable.add\<close>.
\<close>

definition indexNotes ::
  "(int \<Rightarrow> jsstring) \<Rightarrow> Config \<Rightarrow> gunzip \<Rightarrow> note_row list \<Rightarrow> chunk_row list option" where
  "indexNotes toLocaleString config ungzip rows =
     map_option fst
       (index_loop toLocaleString config
          (filter (\<lambda>n. note_title n \<noteq> []) (getAllNotesWithContent ungzip rows)) ([], 0))"

section \<open>Notions of the specification and sample data\<close>

text \<open>
  The classifier in the words of the specification. First the iteration of a string by
  code points, the number of code units each one takes, and the fraction of a line's code
  units that belong to code points of the printable set; then the three rules.
\<close>

fun code_points :: "jsstring \<Rightarrow> nat list" where
  "code_points [] = []"
| "code_points [c] = [unat c]"
| "code_points (h # l # rest) =
     (if is_high_surrogate h \<and> is_low_surrogate l then surrogate_cp h l # code_points rest
      else unat h # code_points (l # rest))"

definition code_units :: "nat \<Rightarrow> nat" where
  "code_units cp = (if cp < 0x10000 then 1 else 2)"

definition printable_fraction :: "jsstring \<Rightarrow> rat" where
  "printable_fraction line =
     rat_of_nat (sum_list (map code_units (filter printable_cp (code_points line))))
       / rat_of_nat (length line)"

definition garbage_by_rules :: "jsstring \<Rightarrow> bool" where
  "garbage_by_rules line \<longleftrightarrow>
     length line < 3 \<or>
     set line \<subseteq> {c. marker_char c} \<or>
     printable_fraction line < (if length line < 10 then 98 / 100 else 90 / 100)"

text \<open>
  A run of three consecutive garbage lines that begins at line \<open>i\<close>, and the number of lines
  before the first such run (all lines, when there is none).
\<close>

definition garbage_run_at :: "jsstring list \<Rightarrow> nat \<Rightarrow> bool" where
  "garbage_run_at ls i \<longleftrightarrow>
     i + 2 < length ls \<and> isGarbageLine (ls ! i) \<and> isGarbageLine (ls ! (i + 1)) \<and>
     isGarbageLine (ls ! (i + 2))"

fun garbage_run_start :: "jsstring list \<Rightarrow> nat" where
  "garbage_run_start (a # b # c # rest) =
     (if isGarbageLine a \<and> isGarbageLine b \<and> isGarbageLine c then 0
      else Suc (garbage_run_start (b # c # rest)))"
| "garbage_run_start ls = length ls"

text \<open>Five lines of prose followed by four lines of fewer than three characters.\<close>

definition prose_lines :: "jsstring list" where
  "prose_lines =
     [js ''Buy milk'', js ''Call mom'', js ''Pay rent'', js ''Fix bike'', js ''Read book'']"

definition short_lines :: "jsstring list" where
  "short_lines = [js ''ab'', js ''x'', js ''7z'', js ''Q'']"

definition sample_buffer :: "byte list" where
  "sample_buffer =
     ascii_bytes ''Buy milk'' @ [0x0A] @ ascii_bytes ''Call mom'' @ [0x0A] @
     ascii_bytes ''Pay rent'' @ [0x0A] @ ascii_bytes ''Fix bike'' @ [0x0A] @
     ascii_bytes ''Read book'' @ [0x0A] @ ascii_bytes ''ab'' @ [0x0A] @ ascii_bytes ''x'' @ [0x0A] @
     ascii_bytes ''7z'' @ [0x0A] @ ascii_bytes ''Q''"

text \<open>A row of the index with the given title and content, its other columns empty.\<close>

definition sample_row :: "string \<Rightarrow> string \<Rightarrow> chunk_row" where
  "sample_row t c =
     \<lparr>chunk_id = [], title = js t, content = js c, creation_date = [], modification_date = []\<rparr>"

text \<open>
  The entries of the index that stand for one note, given the chunks of its content and
  the number of entries written before: one entry per chunk, or a single entry that
  repeats the title when there is no chunk.
\<close>

definition note_entries ::
  "(int \<Rightarrow> jsstring) \<Rightarrow> AppleNote \<Rightarrow> jsstring list \<Rightarrow> nat \<Rightarrow> chunk_row list" where
  "note_entries toLocaleString note contentChunks n =
     (if contentChunks = [] then
        [\<lparr>chunk_id = decimal n, title = note_title note, content = note_title note,
          creation_date = toLocaleString (creationDate note),
          modification_date = toLocaleString (modificationDate note)\<rparr>]
      else
        map (\<lambda>(j, contentChunk).
               \<lparr>chunk_id = decimal j, title = note_title note, content = contentChunk,
                creation_date = toLocaleString (creationDate note),
                modification_date = toLocaleString (modificationDate note)\<rparr>)
            (enumerate n contentChunks))"

text \<open>A note without a body, and the default configuration.\<close>

definition groceries_row :: note_row where
  "groceries_row =
     \<lparr>row_id = 1, row_title = js ''Groceries'', row_snippet = None,
      row_creationDate = Some 694224000, row_modificationDate = None, row_folderId = None,
      row_content = None\<rparr>"

definition sample_config :: Config where
  "sample_config =
     \<lparr>embeddingsModel = js ''Xenova/all-MiniLM-L6-v2'', chunkSize = 1000, chunkOverlap = 100,
      dbPath = []\<rparr>"

text \<open>
  The configuration that \<^verbatim>\<open>loadConfig\<close> builds from \<^verbatim>\<open>CHUNK_SIZE=0\<close> and
  \<^verbatim>\<open>CHUNK_OVERLAP=0\<close>, and a note whose body is the text \<^verbatim>\<open>a\<close>, stored uncompressed.
\<close>

definition zero_config :: Config where
  "zero_config =
     \<lparr>embeddingsModel = js ''Xenova/all-MiniLM-L6-v2'', chunkSize = 0, chunkOverlap = 0,
      dbPath = []\<rparr>"

definition body_row :: note_row where
  "body_row =
     \<lparr>row_id = 2, row_title = js ''Todo'', row_snippet = None,
      row_creationDate = None, row_modificationDate = None, row_folderId = None,
      row_content = Some [0x61]\<rparr>"

text \<open>
  Two result lists in which the item \<open>X\<close> stands at the positions 12 and 28 and the item
  \<open>Y\<close> at the positions 39 and 6; the other items are numbered.
\<close>

definition numbered_rows :: "nat \<Rightarrow> chunk_row list" where
  "numbered_rows n =
     map (\<lambda>i. \<lparr>chunk_id = [], title = decimal i, content = [], creation_date = [],
                 modification_date = []\<rparr>) [0..<n]"

definition tie_vector :: "chunk_row list" where
  "tie_vector = (numbered_rows 39)[12 := sample_row ''X'' ''x''] @ [sample_row ''Y'' ''y'']"

definition tie_fts :: "chunk_row list" where
  "tie_fts = (numbered_rows 28)[6 := sample_row ''Y'' ''y''] @ [sample_row ''X'' ''x'']"

section \<open>Properties of the extractor\<close>

lemma code_units_unat: "code_units (unat (c :: jschar)) = 1"
proof -
  have "unat c < 2 ^ 16" using unsigned_less[of c] by simp
  then show ?thesis by (simp add: code_units_def)
qed

lemma code_units_surrogate_cp: "code_units (surrogate_cp h l) = 2"
  by (simp add: code_units_def surrogate_cp_def)

lemma length_remove_unprintable:
  "length (remove_unprintable line) =
   sum_list (map code_units (filter printable_cp (code_points line)))"
  by (induction line rule: remove_unprintable.induct)
     (simp_all add: code_units_unat code_units_surrogate_cp)

lemma marker_test_iff: "marker_test line \<longleftrightarrow> line \<noteq> [] \<and> set line \<subseteq> {c. marker_char c}"
  by (auto simp: marker_test_def list_all_iff)

text \<open>
  Claim C7: a non-empty line is classified as garbage exactly when it has fewer than three
  characters, or all its characters are of the marker alphabet, or the fraction of its
  characters that fall in the printable set is below 0.98 (fewer than ten characters) or
  0.90 (ten or more). Characters are UTF-16 code units, as \<^verbatim>\<open>length\<close> counts them; the two
  code units of a code point beyond U+FFFF fall in the printable set together.
\<close>

theorem isGarbageLine_rules:
  assumes "line \<noteq> []"
  shows "isGarbageLine line \<longleftrightarrow> garbage_by_rules line"
  using assms
  by (simp add: isGarbageLine_def garbage_by_rules_def printable_fraction_def
      length_remove_unprintable marker_test_iff Let_def)

theorem isGarbageLine_rules_witness:
  "js ''ab'' \<noteq> [] \<and> isGarbageLine (js ''ab'') \<and>
   js ''*J 12-3.'' \<noteq> [] \<and> isGarbageLine (js ''*J 12-3.'') \<and>
   js ''Hello wo'' @ [0x4E2D, 0x6587] \<noteq> [] \<and> garbage_by_rules (js ''Hello wo'' @ [0x4E2D, 0x6587]) \<and>
   js ''Hello wor'' @ [0x4E2D] \<noteq> [] \<and> \<not> garbage_by_rules (js ''Hello wor'' @ [0x4E2D]) \<and>
   js ''Hi '' @ [0x4E2D] \<noteq> [] \<and> garbage_by_rules (js ''Hi '' @ [0x4E2D]) \<and>
   js ''Buy milk'' \<noteq> [] \<and> \<not> garbage_by_rules (js ''Buy milk'')"
proof -
  have 1: "garbage_by_rules (js ''ab'')" by (simp add: garbage_by_rules_def js_def)
  have 2: "garbage_by_rules (js ''*J 12-3.'')"
    by (simp add: garbage_by_rules_def js_def marker_char_def isWhiteSpace_def)
  have 3: "isGarbageLine (js ''Hello wo'' @ [0x4E2D, 0x6587])"
    by (simp add: isGarbageLine_def js_def marker_test_def marker_char_def isWhiteSpace_def
        is_high_surrogate_def is_low_surrogate_def printable_cp_def Let_def)
  have 4: "\<not> isGarbageLine (js ''Hello wor'' @ [0x4E2D])"
    by (simp add: isGarbageLine_def js_def marker_test_def marker_char_def isWhiteSpace_def
        is_high_surrogate_def is_low_surrogate_def printable_cp_def Let_def)
  have 5: "isGarbageLine (js ''Hi '' @ [0x4E2D])"
    by (simp add: isGarbageLine_def js_def marker_test_def marker_char_def isWhiteSpace_def
        is_high_surrogate_def is_low_surrogate_def printable_cp_def Let_def)
  have 6: "\<not> isGarbageLine (js ''Buy milk'')"
    by (simp add: isGarbageLine_def js_def marker_test_def marker_char_def isWhiteSpace_def
        is_high_surrogate_def is_low_surrogate_def printable_cp_def Let_def)
  have ne: "js ''ab'' \<noteq> []" "js ''*J 12-3.'' \<noteq> []" "js ''Hello wo'' @ [0x4E2D, 0x6587] \<noteq> []"
    "js ''Hello wor'' @ [0x4E2D] \<noteq> []" "js ''Hi '' @ [0x4E2D] \<noteq> []" "js ''Buy milk'' \<noteq> []"
    by (simp_all add: js_def)
  show ?thesis
    using 1 2 3 4 5 6 ne
      isGarbageLine_rules[OF ne(1)] isGarbageLine_rules[OF ne(2)] isGarbageLine_rules[OF ne(3)]
      isGarbageLine_rules[OF ne(4)] isGarbageLine_rules[OF ne(5)] isGarbageLine_rules[OF ne(6)]
    by blast
qed

lemma scan_lines_acc: "scan_lines ls cnt good = good @ scan_lines ls cnt []"
proof (induction ls arbitrary: cnt good)
  case Nil
  show ?case by simp
next
  case (Cons l ls)
  show ?case
    using Cons.IH[of "cnt + 1" good] Cons.IH[of 0 "good @ [l]"] Cons.IH[of 0 "[l]"]
    by simp
qed

lemma scan_lines_step:
  assumes "\<not> (isGarbageLine a \<and> isGarbageLine b \<and> isGarbageLine c)"
  shows "scan_lines (a # b # c # rest) 0 [] =
         (if isGarbageLine a then [] else [a]) @ scan_lines (b # c # rest) 0 []"
  using assms scan_lines_acc[of "b # c # rest" 0 "[a]"] scan_lines_acc[of rest 0 "[b]"]
  by (simp add: maxConsecutiveGarbage_def)

lemma scan_lines_run_start:
  "scan_lines ls 0 [] = filter (\<lambda>l. \<not> isGarbageLine l) (take (garbage_run_start ls) ls)"
proof (induction ls rule: garbage_run_start.induct)
  case (1 a b c rest)
  show ?case
  proof (cases "isGarbageLine a \<and> isGarbageLine b \<and> isGarbageLine c")
    case True
    then show ?thesis by (simp add: maxConsecutiveGarbage_def)
  next
    case False
    have tail: "scan_lines (b # c # rest) 0 [] =
        filter (\<lambda>l. \<not> isGarbageLine l) (take (garbage_run_start (b # c # rest)) (b # c # rest))"
      using 1 False by blast
    have run: "garbage_run_start (a # b # c # rest) = Suc (garbage_run_start (b # c # rest))"
      using False by simp
    show ?thesis
      unfolding scan_lines_step[OF False] tail run by simp
  qed
qed (simp_all add: maxConsecutiveGarbage_def)

lemma garbage_run_start_le: "garbage_run_start ls \<le> length ls"
  by (induction ls rule: garbage_run_start.induct) simp_all

lemma garbage_run_start_run:
  "garbage_run_start ls < length ls \<Longrightarrow> garbage_run_at ls (garbage_run_start ls)"
  by (induction ls rule: garbage_run_start.induct) (auto simp: garbage_run_at_def)

lemma garbage_run_start_first:
  "i < garbage_run_start ls \<Longrightarrow> \<not> garbage_run_at ls i"
proof (induction ls arbitrary: i rule: garbage_run_start.induct)
  case (1 a b c rest)
  show ?case
  proof (cases i)
    case 0
    then show ?thesis using "1.prems" by (auto simp: garbage_run_at_def split: if_splits)
  next
    case (Suc j)
    then have "\<not> garbage_run_at (b # c # rest) j"
      using 1 by (auto split: if_splits)
    then show ?thesis using Suc by (simp add: garbage_run_at_def)
  qed
qed (simp_all add: garbage_run_at_def)

lemma garbage_run_start_none:
  assumes "\<forall>i. \<not> garbage_run_at ls i"
  shows "garbage_run_start ls = length ls"
  using assms garbage_run_start_run[of ls] garbage_run_start_le[of ls] by (meson le_neq_implies_less)

lemma garbage_run_start_eq:
  assumes "garbage_run_at ls n" "\<forall>i<n. \<not> garbage_run_at ls i"
  shows "garbage_run_start ls = n"
proof -
  have "\<not> n < garbage_run_start ls" using assms(1) garbage_run_start_first by blast
  moreover have "\<not> garbage_run_start ls < n"
  proof
    assume lt: "garbage_run_start ls < n"
    have "n < length ls" using assms(1) by (simp add: garbage_run_at_def)
    then have "garbage_run_at ls (garbage_run_start ls)"
      using lt garbage_run_start_run[of ls] by simp
    then show False using assms(2) lt by blast
  qed
  ultimately show ?thesis by simp
qed

lemma scan_lines_prose_then_short:
  assumes "\<forall>p\<in>set ps. \<not> isGarbageLine p" "\<forall>s\<in>set ss. isGarbageLine s"
  shows "scan_lines (ps @ ss) cnt good = good @ ps"
  using assms(1)
proof (induction ps arbitrary: cnt good)
  case Nil
  have "scan_lines ss c g = g" for c g
    using assms(2) by (induction ss arbitrary: c) simp_all
  then show ?case by simp
next
  case (Cons p ps)
  then show ?case by simp
qed

lemma dropWhile_hd: "s \<noteq> [] \<Longrightarrow> \<not> P (hd s) \<Longrightarrow> dropWhile P s = s"
  by (cases s) simp_all

lemma trim_fixed:
  assumes "s \<noteq> []" "\<not> isWhiteSpace (hd s)" "\<not> isWhiteSpace (last s)"
  shows "trim s = s"
proof -
  have "dropWhile isWhiteSpace s = s" using assms by (simp add: dropWhile_hd)
  moreover have "dropWhile isWhiteSpace (rev s) = rev s"
    using assms by (simp add: dropWhile_hd hd_rev)
  ultimately show ?thesis by (simp add: trim_def)
qed

lemma last_dropWhile_keep: "dropWhile P xs \<noteq> [] \<Longrightarrow> last (dropWhile P xs) = last xs"
  by (induction xs) (auto split: if_splits)

lemma trim_ends:
  assumes "trim s \<noteq> []"
  shows "\<not> isWhiteSpace (hd (trim s))" "\<not> isWhiteSpace (last (trim s))"
proof -
  define d where "d = dropWhile isWhiteSpace s"
  define r where "r = dropWhile isWhiteSpace (rev d)"
  have t: "trim s = rev r" by (simp add: trim_def d_def r_def)
  have rne: "r \<noteq> []" using assms t by simp
  then have dne: "d \<noteq> []" by (auto simp: r_def)
  have "\<not> isWhiteSpace (hd r)" using rne unfolding r_def by (rule hd_dropWhile)
  then show "\<not> isWhiteSpace (last (trim s))" using rne by (simp add: t last_rev)
  have "last r = last (rev d)" using rne unfolding r_def by (rule last_dropWhile_keep)
  also have "\<dots> = hd d" using dne by (simp add: last_rev)
  finally have "hd (trim s) = hd d" using rne by (simp add: t hd_rev)
  moreover have "\<not> isWhiteSpace (hd d)" using dne unfolding d_def by (rule hd_dropWhile)
  ultimately show "\<not> isWhiteSpace (hd (trim s))" by simp
qed

lemma candidate_lines_trimmed:
  assumes "l \<in> set (candidate_lines str)"
  shows "l \<noteq> [] \<and> \<not> isWhiteSpace (hd l) \<and> \<not> isWhiteSpace (last l)"
proof -
  obtain s where "l = trim s" "l \<noteq> []"
    using assms by (auto simp: candidate_lines_def)
  then show ?thesis using trim_ends[of s] by simp
qed

lemma hd_js_join: "p \<noteq> [] \<Longrightarrow> hd (js_join sep (p # ps)) = hd p"
  by (cases ps) simp_all

lemma js_join_Nil_iff: "js_join sep ps = [] \<longleftrightarrow> (sep = [] \<or> length ps \<le> 1) \<and> (\<forall>p\<in>set ps. p = [])"
  by (induction sep ps rule: js_join.induct) auto

lemma last_js_join: "ps \<noteq> [] \<Longrightarrow> last ps \<noteq> [] \<Longrightarrow> last (js_join sep ps) = last (last ps)"
proof (induction sep ps rule: js_join.induct)
  case (3 sep x y ys)
  then have "js_join sep (y # ys) \<noteq> []" by (auto simp: js_join_Nil_iff split: if_splits)
  then show ?case using 3 by simp
qed simp_all

lemma trim_js_join:
  assumes "\<forall>p\<in>set ps. p \<noteq> [] \<and> \<not> isWhiteSpace (hd p) \<and> \<not> isWhiteSpace (last p)"
  shows "trim (js_join sep ps) = js_join sep ps"
proof (cases ps)
  case Nil
  then show ?thesis by (simp add: trim_def)
next
  case (Cons p qs)
  have lastp: "last ps \<in> set ps" using Cons by simp
  have "js_join sep ps \<noteq> []" using Cons assms by (auto simp: js_join_Nil_iff)
  moreover have "hd (js_join sep ps) = hd p" using Cons assms by (simp add: hd_js_join)
  moreover have "last (js_join sep ps) = last (last ps)"
    using Cons assms lastp by (intro last_js_join) auto
  ultimately show ?thesis using assms Cons lastp by (intro trim_fixed) auto
qed

lemma short_line_garbage: "length s < 3 \<Longrightarrow> isGarbageLine s"
  by (simp add: isGarbageLine_def)

text \<open>
  Claim C1: for every buffer, with \<open>ls\<close> the classified lines in order: when no three
  consecutive lines are garbage, every line that is not garbage is kept; when the first run
  of three consecutive garbage lines begins at line \<open>n\<close>, exactly the lines before it
  that are not garbage are kept and nothing after it; the kept lines are joined by line
  breaks in their order. In particular five prose lines followed by four lines of fewer
  than three characters give the five prose lines, joined.
\<close>

theorem extractTextFromProtobuf_scan:
  assumes "ls = candidate_lines (toString_utf8 data)"
  shows "((\<forall>i. \<not> garbage_run_at ls i) \<longrightarrow>
            extractTextFromProtobuf data =
              trim (js_join [0x0A] (filter (\<lambda>l. \<not> isGarbageLine l) ls))) \<and>
         (\<forall>n. garbage_run_at ls n \<and> (\<forall>i<n. \<not> garbage_run_at ls i) \<longrightarrow>
            extractTextFromProtobuf data =
              trim (js_join [0x0A] (filter (\<lambda>l. \<not> isGarbageLine l) (take n ls)))) \<and>
         (\<forall>ps ss. ls = ps @ ss \<and> length ps = 5 \<and> length ss = 4 \<and>
            (\<forall>p\<in>set ps. \<not> isGarbageLine p) \<and> (\<forall>s\<in>set ss. length s < 3) \<longrightarrow>
            extractTextFromProtobuf data = js_join [0x0A] ps)"
proof (intro conjI allI impI)
  assume "\<forall>i. \<not> garbage_run_at ls i"
  then have "garbage_run_start ls = length ls" by (rule garbage_run_start_none)
  then show "extractTextFromProtobuf data =
      trim (js_join [0x0A] (filter (\<lambda>l. \<not> isGarbageLine l) ls))"
    using assms scan_lines_run_start[of ls] by (simp add: extractTextFromProtobuf_def)
next
  fix n
  assume "garbage_run_at ls n \<and> (\<forall>i<n. \<not> garbage_run_at ls i)"
  then have "garbage_run_start ls = n" by (simp add: garbage_run_start_eq)
  then show "extractTextFromProtobuf data =
      trim (js_join [0x0A] (filter (\<lambda>l. \<not> isGarbageLine l) (take n ls)))"
    using assms scan_lines_run_start[of ls] by (simp add: extractTextFromProtobuf_def)
next
  fix ps ss
  assume a: "ls = ps @ ss \<and> length ps = 5 \<and> length ss = 4 \<and>
      (\<forall>p\<in>set ps. \<not> isGarbageLine p) \<and> (\<forall>s\<in>set ss. length s < 3)"
  then have "scan_lines ls 0 [] = ps"
    using scan_lines_prose_then_short[of ps ss 0 "[]"] short_line_garbage by simp
  moreover have "\<forall>p\<in>set ps. p \<noteq> [] \<and> \<not> isWhiteSpace (hd p) \<and> \<not> isWhiteSpace (last p)"
    using a assms candidate_lines_trimmed[of _ "toString_utf8 data"] by auto
  ultimately show "extractTextFromProtobuf data = js_join [0x0A] ps"
    using assms by (simp add: extractTextFromProtobuf_def trim_js_join)
qed

lemma sample_lines: "candidate_lines (toString_utf8 sample_buffer) = prose_lines @ short_lines"
  by (simp add: sample_buffer_def ascii_bytes_def toString_utf8_def utf16_units_def
      candidate_lines_def is_control_def trim_def isWhiteSpace_def prose_lines_def
      short_lines_def js_def)

lemma prose_lines_not_garbage: "\<forall>p\<in>set prose_lines. \<not> isGarbageLine p"
  by (simp add: prose_lines_def isGarbageLine_def js_def marker_test_def marker_char_def
      isWhiteSpace_def is_high_surrogate_def is_low_surrogate_def printable_cp_def Let_def)

theorem extractTextFromProtobuf_scan_witness:
  "candidate_lines (toString_utf8 sample_buffer) = prose_lines @ short_lines \<and>
   length prose_lines = 5 \<and> length short_lines = 4 \<and>
   garbage_run_at (prose_lines @ short_lines) 5 \<and>
   extractTextFromProtobuf sample_buffer =
     trim (js_join [0x0A]
       (filter (\<lambda>l. \<not> isGarbageLine l) (take 5 (prose_lines @ short_lines)))) \<and>
   extractTextFromProtobuf sample_buffer =
     js ''Buy milk'' @ [0x0A] @ js ''Call mom'' @ [0x0A] @ js ''Pay rent'' @ [0x0A] @
     js ''Fix bike'' @ [0x0A] @ js ''Read book''"
proof -
  have short: "\<forall>s\<in>set short_lines. length s < 3" by (simp add: short_lines_def js_def)
  have len: "length prose_lines = 5" "length short_lines = 4"
    by (simp_all add: prose_lines_def short_lines_def)
  have run: "garbage_run_at (prose_lines @ short_lines) 5"
    by (simp add: garbage_run_at_def prose_lines_def short_lines_def short_line_garbage js_def)
  have first: "\<forall>i<5. \<not> garbage_run_at (prose_lines @ short_lines) i"
    using prose_lines_not_garbage len by (simp add: garbage_run_at_def nth_append)
  note inst = extractTextFromProtobuf_scan[OF sample_lines[symmetric]]
  have a: "extractTextFromProtobuf sample_buffer = js_join [0x0A] prose_lines"
    using inst len short prose_lines_not_garbage by blast
  have b: "extractTextFromProtobuf sample_buffer =
     trim (js_join [0x0A]
       (filter (\<lambda>l. \<not> isGarbageLine l) (take 5 (prose_lines @ short_lines))))"
    using inst run first by blast
  show ?thesis using a b sample_lines len run by (simp add: prose_lines_def)
qed

lemma gzip_magic_iff:
  "gzip_magic buffer \<longleftrightarrow> 2 \<le> length buffer \<and> buffer ! 0 = 0x1F \<and> buffer ! 1 = 0x8B"
  by (auto simp: gzip_magic_def split: list.splits)

text \<open>
  Claim C4: \<^verbatim>\<open>parseNoteContent\<close> returns a string on every input. For an absent buffer it is
  the empty string; for a buffer that begins with \<^verbatim>\<open>0x1F 0x8B\<close> it is the extraction from
  the decompressed bytes, and the empty string when decompression throws; for every other
  buffer it is the lossy UTF-8 decoding of the buffer.
\<close>

theorem parseNoteContent_cases:
  "parseNoteContent ungzip None = [] \<and>
   (2 \<le> length buffer \<and> buffer ! 0 = 0x1F \<and> buffer ! 1 = 0x8B \<longrightarrow>
      (\<forall>decompressed. ungzip buffer = Inr decompressed \<longrightarrow>
         parseNoteContent ungzip (Some buffer) = extractTextFromProtobuf decompressed) \<and>
      (\<forall>e. ungzip buffer = Inl e \<longrightarrow> parseNoteContent ungzip (Some buffer) = [])) \<and>
   (\<not> (2 \<le> length buffer \<and> buffer ! 0 = 0x1F \<and> buffer ! 1 = 0x8B) \<longrightarrow>
      parseNoteContent ungzip (Some buffer) = toString_utf8 buffer)"
  unfolding gzip_magic_iff[symmetric]
  by (simp add: parseNoteContent_def parseNoteContent_try_def)

theorem parseNoteContent_cases_witness:
  "parseNoteContent (\<lambda>b. Inl Thrown) None = [] \<and>
   parseNoteContent (\<lambda>b. Inr sample_buffer) (Some [0x1F, 0x8B, 0x08, 0x00]) =
     extractTextFromProtobuf sample_buffer \<and>
   parseNoteContent (\<lambda>b. Inl Thrown) (Some [0x1F, 0x8B, 0x08, 0x00]) = [] \<and>
   parseNoteContent (\<lambda>b. Inl Thrown) (Some [0x48, 0x69, 0xFF]) = [0x48, 0x69, 0xFFFD]"
proof -
  have d: "toString_utf8 [0x48, 0x69, 0xFF] = [0x48, 0x69, 0xFFFD]"
    by (simp add: toString_utf8_def utf16_units_def)
  show ?thesis
    using d
      parseNoteContent_cases[of "\<lambda>b. Inl Thrown" "[0x1F, 0x8B, 0x08, 0x00]"]
      parseNoteContent_cases[of "\<lambda>b. Inr sample_buffer" "[0x1F, 0x8B, 0x08, 0x00]"]
      parseNoteContent_cases[of "\<lambda>b. Inl Thrown" "[0x48, 0x69, 0xFF]"]
    by simp
qed

section \<open>Properties of the chunker\<close>

lemma trim_Nil_iff: "trim s = [] \<longleftrightarrow> (\<forall>c\<in>set s. isWhiteSpace c)"
proof
  assume "trim s = []"
  then have "dropWhile isWhiteSpace (rev (dropWhile isWhiteSpace s)) = []"
    by (simp add: trim_def)
  then have all: "\<forall>c\<in>set (dropWhile isWhiteSpace s). isWhiteSpace c"
    by simp
  have "dropWhile isWhiteSpace s = []"
  proof (rule ccontr)
    assume ne: "dropWhile isWhiteSpace s \<noteq> []"
    then have "\<not> isWhiteSpace (hd (dropWhile isWhiteSpace s))"
      by (rule hd_dropWhile)
    moreover from ne have "hd (dropWhile isWhiteSpace s) \<in> set (dropWhile isWhiteSpace s)"
      by simp
    ultimately show False using all by blast
  qed
  then show "\<forall>c\<in>set s. isWhiteSpace c"
    by simp
next
  assume "\<forall>c\<in>set s. isWhiteSpace c"
  then show "trim s = []"
    unfolding trim_def by (auto dest: set_dropWhileD)
qed

lemma length_trim_le: "length (trim s) \<le> length s"
proof -
  have "length (trim s) \<le> length (dropWhile isWhiteSpace s)"
    unfolding trim_def by (simp add: length_dropWhile_le order_trans[OF length_dropWhile_le])
  also have "\<dots> \<le> length s" by (rule length_dropWhile_le)
  finally show ?thesis .
qed

lemma length_js_slice_le:
  assumes "0 \<le> b" "b \<le> e"
  shows "int (length (js_slice s b e)) \<le> e - b"
  using assms by (auto simp: js_slice_def Let_def min_def max_def)

lemma search_sentence_end_range:
  "search_sentence_end s \<noteq> -1 \<Longrightarrow> 0 \<le> search_sentence_end s \<and> search_sentence_end s + 2 \<le> int (length s)"
  by (induction s rule: search_sentence_end.induct) (auto simp: Let_def split: if_splits)

lemma window_end_bounds:
  assumes "0 < m" "0 \<le> start" "start < int (length text)"
  shows "start < window_end text m start"
    and "window_end text m start \<le> start + m"
    and "window_end text m start \<le> int (length text)"
proof -
  define end0 where "end0 = min (start + m) (int (length text))"
  define searchStart where "searchStart = max (end0 - 200) start"
  define r where "r = search_sentence_end (js_slice text searchStart end0)"
  have e0: "start < end0" "end0 \<le> start + m" "end0 \<le> int (length text)"
    using assms by (auto simp: end0_def)
  have ss: "start \<le> searchStart" "searchStart \<le> end0" "0 \<le> searchStart"
    using e0 assms by (auto simp: searchStart_def)
  have we: "window_end text m start =
      (if end0 < int (length text) then (if r \<noteq> -1 then searchStart + r + 2 else end0) else end0)"
    by (simp add: window_end_def Let_def end0_def searchStart_def r_def)
  have len: "int (length (js_slice text searchStart end0)) \<le> end0 - searchStart"
    using length_js_slice_le[OF ss(3) ss(2), of "text"] by simp
  have rr: "r \<noteq> -1 \<Longrightarrow> 0 \<le> r \<and> searchStart + r + 2 \<le> end0"
    using search_sentence_end_range[of "js_slice text searchStart end0"] len
    by (simp add: r_def)
  show "start < window_end text m start" using we e0 ss rr by auto
  show "window_end text m start \<le> start + m" using we e0 ss rr by auto
  show "window_end text m start \<le> int (length text)" using we e0 ss rr by auto
qed

lemma next_start_gt: "start < e \<Longrightarrow> start < next_start e ov start"
  by (simp add: next_start_def Let_def)

lemma chunk_loop_total:
  assumes "0 < m"
  shows "0 \<le> start \<Longrightarrow> \<forall>c\<in>set acc. c \<noteq> [] \<and> int (length c) \<le> m \<Longrightarrow>
         \<exists>cs. chunk_loop text m ov start acc = Some cs \<and> (\<forall>c\<in>set cs. c \<noteq> [] \<and> int (length c) \<le> m)"
proof (induction "nat (int (length text) - start)" arbitrary: start acc rule: less_induct)
  case less
  show ?case
  proof (cases "start < int (length text)")
    case False
    then show ?thesis using less.prems by (subst chunk_loop.simps) simp
  next
    case True
    define e where "e = window_end text m start"
    define chunk where "chunk = trim (js_slice text start e)"
    define acc1 where "acc1 = (if length chunk > 0 then acc @ [chunk] else acc)"
    have eb: "start < e" "e \<le> start + m" "e \<le> int (length text)"
      using window_end_bounds[OF assms less.prems(1) True] by (simp_all add: e_def)
    have "int (length chunk) \<le> int (length (js_slice text start e))"
      by (simp add: chunk_def length_trim_le)
    also have "\<dots> \<le> e - start"
      using eb by (intro length_js_slice_le[OF less.prems(1)]) simp
    finally have cl: "int (length chunk) \<le> m" using eb by simp
    have acc1: "\<forall>c\<in>set acc1. c \<noteq> [] \<and> int (length c) \<le> m"
      using less.prems(2) cl by (auto simp: acc1_def)
    have unfold: "chunk_loop text m ov start acc =
        (if e \<ge> int (length text) then Some acc1
         else chunk_loop text m ov (next_start e ov start) acc1)"
      using True by (subst chunk_loop.simps) (simp add: Let_def e_def chunk_def acc1_def)
    show ?thesis
    proof (cases "e \<ge> int (length text)")
      case True
      then show ?thesis using unfold acc1 by simp
    next
      case False
      have gt: "start < next_start e ov start" using eb by (simp add: next_start_gt)
      then have "nat (int (length text) - next_start e ov start) < nat (int (length text) - start)"
        using \<open>start < int (length text)\<close> by simp
      moreover have "0 \<le> next_start e ov start" using gt less.prems(1) by simp
      ultimately have "\<exists>cs. chunk_loop text m ov (next_start e ov start) acc1 = Some cs \<and>
          (\<forall>c\<in>set cs. c \<noteq> [] \<and> int (length c) \<le> m)"
        using less.hyps acc1 by blast
      then show ?thesis using unfold False by simp
    qed
  qed
qed

text \<open>
  With \<^verbatim>\<open>maxChunkSize = 0\<close> and an overlap that is not negative the window is empty, the
  cursor stays at \<open>0\<close> and the loop calls itself in the state it started from: on a text
  that is not blank \<^verbatim>\<open>chunkText\<close> returns nothing.
\<close>

lemma window_end_zero: "t \<noteq> [] \<Longrightarrow> window_end t 0 0 = 0"
  by (simp add: window_end_def js_slice_def Let_def)

lemma chunk_loop_stuck:
  assumes "chunk_loop t m ov start acc = Some cs"
  shows "\<not> (t \<noteq> [] \<and> m = 0 \<and> 0 \<le> ov \<and> start = 0)"
proof (rule chunk_loop.raw_induct[where P = "\<lambda>t m ov start acc cs.
         \<not> (t \<noteq> [] \<and> m = 0 \<and> 0 \<le> ov \<and> start = 0)", OF _ assms], goal_cases)
  case (1 loop t m ov start acc cs)
  show ?case
  proof
    assume a: "t \<noteq> [] \<and> m = 0 \<and> 0 \<le> ov \<and> start = 0"
    then have "loop t 0 ov 0 acc = Some cs"
      using 1(2) by (simp add: window_end_zero js_slice_def next_start_def trim_def Let_def)
    then show False using 1(1) a by blast
  qed
qed

lemma chunkText_zero_size_never_returns:
  assumes "\<exists>c\<in>set t. \<not> isWhiteSpace c" "0 \<le> ov"
  shows "chunkText t \<lparr>maxChunkSize = 0, overlap = ov\<rparr> = None"
proof -
  have ne: "t \<noteq> []" using assms(1) by auto
  have nb: "trim t \<noteq> []" using assms(1) by (simp add: trim_Nil_iff)
  have "chunk_loop t 0 ov 0 [] = None"
    using chunk_loop_stuck[of t 0 ov 0 "[]"] ne assms(2)
    by (cases "chunk_loop t 0 ov 0 []") auto
  then show ?thesis using ne nb by (simp add: chunkText_def)
qed

text \<open>
  Claim C3: for every text and every configuration the cursor strictly increases in every
  iteration, so that \<^verbatim>\<open>chunkText\<close> terminates. The loop is written to guarantee it (its
  comment: \<^verbatim>\<open>Ensure we always make forward progress\<close>), and it does for every positive
  \<^verbatim>\<open>maxChunkSize\<close> (\<open>chunkText_positive_size_terminates\<close> below). It misses the window
  of size zero (\<open>chunkText_zero_size_never_returns\<close> above): for the text \<^verbatim>\<open>"a"\<close> and
  \<^verbatim>\<open>{maxChunkSize: 0, overlap: 0}\<close> the cursor after the first iteration is the cursor
  before it, and \<^verbatim>\<open>chunkText\<close> does not return.
\<close>

theorem chunkText_zero_size_diverges:
  "chunkText (js ''a'') \<lparr>maxChunkSize = 0, overlap = 0\<rparr> = None \<and>
   next_start (window_end (js ''a'') 0 0) 0 0 = 0"
proof -
  have "\<exists>c\<in>set (js ''a''). \<not> isWhiteSpace c" by (simp add: js_def isWhiteSpace_def)
  then have "chunkText (js ''a'') \<lparr>maxChunkSize = 0, overlap = 0\<rparr> = None"
    by (rule chunkText_zero_size_never_returns) simp
  moreover have "next_start (window_end (js ''a'') 0 0) 0 0 = 0"
    by (simp add: window_end_zero next_start_def js_def)
  ultimately show ?thesis by simp
qed

text \<open>
  For every text and every configuration with a positive \<^verbatim>\<open>maxChunkSize\<close>, whatever the
  overlap (negative, or not smaller than \<^verbatim>\<open>maxChunkSize\<close>), \<^verbatim>\<open>chunkText\<close> returns, and
  the cursor of the loop strictly increases in every iteration, that is from every position
  inside the text.
\<close>

lemma chunkText_positive_size_terminates:
  assumes "0 < maxChunkSize options"
  shows "(\<exists>chunks. chunkText text options = Some chunks) \<and>
         (\<forall>start. 0 \<le> start \<and> start < int (length text) \<longrightarrow>
            start < next_start (window_end text (maxChunkSize options) start)
                      (overlap options) start)"
proof -
  have "\<exists>cs. chunk_loop text (maxChunkSize options) (overlap options) 0 [] = Some cs"
    using chunk_loop_total[OF assms, of 0 "[]" "text" "overlap options"] by auto
  then have "\<exists>chunks. chunkText text options = Some chunks"
    by (simp add: chunkText_def)
  moreover have "\<forall>start. 0 \<le> start \<and> start < int (length text) \<longrightarrow>
      start < next_start (window_end text (maxChunkSize options) start) (overlap options) start"
    using window_end_bounds(1)[OF assms] next_start_gt by blast
  ultimately show ?thesis by blast
qed

text \<open>
  Claim C5: for every text and every configuration with \<open>0 < maxChunkSize\<close> and
  \<open>0 \<le> overlap < maxChunkSize\<close>, \<^verbatim>\<open>chunkText\<close> returns, every chunk has at most
  \<^verbatim>\<open>maxChunkSize\<close> code units, and a text that is not blank and not longer than
  \<^verbatim>\<open>maxChunkSize\<close> yields a single chunk of the length of the text.
\<close>

theorem chunkText_chunk_length:
  assumes "0 < maxChunkSize options" "0 \<le> overlap options"
    "overlap options < maxChunkSize options"
  shows "\<exists>chunks. chunkText text options = Some chunks \<and>
           (\<forall>c\<in>set chunks. int (length c) \<le> maxChunkSize options) \<and>
           ((\<exists>c\<in>set text. \<not> isWhiteSpace c) \<and> int (length text) \<le> maxChunkSize options \<longrightarrow>
              (\<exists>c. chunks = [c] \<and> length c = length text))"
proof (cases "text = [] \<or> length (trim text) = 0")
  case True
  then have "\<forall>c\<in>set text. isWhiteSpace c" by (auto simp: trim_Nil_iff)
  then show ?thesis using True by (auto simp: chunkText_def)
next
  case nonblank: False
  show ?thesis
  proof (cases "int (length text) \<le> maxChunkSize options")
    case True
    then show ?thesis using nonblank by (simp add: chunkText_def)
  next
    case False
    obtain cs where "chunk_loop text (maxChunkSize options) (overlap options) 0 [] = Some cs"
      "\<forall>c\<in>set cs. c \<noteq> [] \<and> int (length c) \<le> maxChunkSize options"
      using chunk_loop_total[OF assms(1), of 0 "[]" "text" "overlap options"] by auto
    then show ?thesis using nonblank False by (simp add: chunkText_def)
  qed
qed

theorem chunkText_chunk_length_witness:
  "(0::int) < 500 \<and> (0::int) \<le> 50 \<and> (50::int) < 500 \<and>
   (\<exists>chunks. chunkText (js ''Hello world'') \<lparr>maxChunkSize = 500, overlap = 50\<rparr> = Some chunks \<and>
      (\<forall>c\<in>set chunks. int (length c) \<le> 500) \<and>
      (\<exists>c. chunks = [c] \<and> length c = length (js ''Hello world'')))"
proof -
  have nb: "\<exists>c\<in>set (js ''Hello world''). \<not> isWhiteSpace c"
    by (simp add: js_def isWhiteSpace_def)
  have len: "int (length (js ''Hello world'')) \<le> 500" by (simp add: js_def)
  show ?thesis
    using chunkText_chunk_length[of "\<lparr>maxChunkSize = 500, overlap = 50\<rparr>" "js ''Hello world''"] nb len
    by simp
qed

text \<open>
  Claim C8 as stated fails on a short text with surrounding white space: \<^verbatim>\<open>" a "\<close> is
  returned as it is, not trimmed to \<^verbatim>\<open>"a"\<close>.
\<close>

theorem chunkText_short_untrimmed_counterexample:
  "trim (js '' a '') = js ''a'' \<and> int (length (js '' a '')) \<le> 500 \<and>
   chunkText (js '' a '') \<lparr>maxChunkSize = 500, overlap = 50\<rparr> = Some [js '' a ''] \<and>
   chunkText (js '' a '') \<lparr>maxChunkSize = 500, overlap = 50\<rparr> \<noteq> Some [trim (js '' a '')]"
  by (simp add: chunkText_def js_def trim_def isWhiteSpace_def)

text \<open>
  Claim C8, amended: an empty or all-white-space text yields no chunk; every other text of
  at most \<^verbatim>\<open>maxChunkSize\<close> code units yields the single chunk that is the text itself,
  unchanged, its leading and trailing white space included.
\<close>

theorem chunkText_short_inputs:
  "((\<forall>c\<in>set text. isWhiteSpace c) \<longrightarrow> chunkText text options = Some []) \<and>
   ((\<exists>c\<in>set text. \<not> isWhiteSpace c) \<and> int (length text) \<le> maxChunkSize options \<longrightarrow>
      chunkText text options = Some [text])"
proof -
  have "trim text = [] \<longleftrightarrow> (\<forall>c\<in>set text. isWhiteSpace c)" by (rule trim_Nil_iff)
  then show ?thesis by (auto simp: chunkText_def)
qed

theorem chunkText_short_inputs_witness:
  "chunkText (js ''  '') \<lparr>maxChunkSize = 500, overlap = 50\<rparr> = Some [] \<and>
   chunkText [] \<lparr>maxChunkSize = 500, overlap = 50\<rparr> = Some [] \<and>
   chunkText (js '' Hello world'') \<lparr>maxChunkSize = 500, overlap = 50\<rparr> = Some [js '' Hello world'']"
proof -
  have a: "\<forall>c\<in>set (js ''  ''). isWhiteSpace c" by (simp add: js_def isWhiteSpace_def)
  have b: "\<exists>c\<in>set (js '' Hello world''). \<not> isWhiteSpace c" by (simp add: js_def isWhiteSpace_def)
  have c: "int (length (js '' Hello world'')) \<le> 500" by (simp add: js_def)
  show ?thesis
    using a b c
      chunkText_short_inputs[of "js ''  ''" "\<lparr>maxChunkSize = 500, overlap = 50\<rparr>"]
      chunkText_short_inputs[of "[]" "\<lparr>maxChunkSize = 500, overlap = 50\<rparr>"]
      chunkText_short_inputs[of "js '' Hello world''" "\<lparr>maxChunkSize = 500, overlap = 50\<rparr>"]
    by simp
qed


section \<open>Properties of the rank fusion\<close>

subsection \<open>The rounding to a double\<close>

text \<open>
  The rounding on some numbers: \<open>1/10\<close>, the sum \<^verbatim>\<open>0.1 + 0.2\<close>, an integer that is a double,
  two integers half way between two doubles, which go to the even significand, and a
  negative number.
\<close>

lemma to_double_samples:
  "to_double (1 / 10) = 3602879701896397 / 36028797018963968"
  "to_double (to_double (1 / 10) + to_double (2 / 10)) = 1351079888211149 / 4503599627370496"
  "to_double 3 = 3"
  "to_double 9007199254740993 = 9007199254740992"
  "to_double 9007199254740995 = 9007199254740996"
  "to_double (- (1 / 3)) = - (6004799503160661 / 18014398509481984)"
  by code_simp+

text \<open>
  The rounding moves a number by at most the fraction \<open>2 ^ -53\<close> of its magnitude: the
  exponent found with \<open>bit_length\<close> is the one of the number, and the integer nearest to
  the scaled quotient is at most \<open>1/2\<close> away from it.
\<close>

lemma bit_length_bounds:
  "0 < n \<Longrightarrow> 2 ^ (bit_length n - 1) \<le> n \<and> n < 2 ^ bit_length n"
proof (induction n rule: bit_length.induct)
  case (1 n)
  show ?case
  proof (cases "n = 1")
    case True
    then show ?thesis by (simp add: bit_length.simps)
  next
    case False
    then have h: "0 < n div 2" using 1(2) by simp
    have bl: "bit_length n = Suc (bit_length (n div 2))"
      using 1(2) by (subst bit_length.simps) simp
    have pos: "0 < bit_length (n div 2)"
      using h by (subst bit_length.simps) simp
    have ih: "2 ^ (bit_length (n div 2) - 1) \<le> n div 2 \<and> n div 2 < 2 ^ bit_length (n div 2)"
      using 1(1) 1(2) h by simp
    obtain b where b: "bit_length (n div 2) = Suc b"
      using pos by (cases "bit_length (n div 2)") auto
    show ?thesis using ih unfolding bl b by simp linarith
  qed
qed

lemma round_half_even_error:
  assumes "0 < den"
  shows "\<bar>rat_of_int (round_half_even num den) - rat_of_int num / rat_of_int den\<bar> \<le> 1 / 2"
proof -
  define m where "m = num div den"
  define r where "r = num mod den"
  define f where "f = rat_of_int r / rat_of_int den"
  have num: "num = m * den + r" by (simp add: m_def r_def)
  have r: "0 \<le> r" "r < den" using assms by (simp_all add: r_def)
  have q: "rat_of_int num / rat_of_int den = rat_of_int m + f"
    using assms by (simp add: num f_def field_simps)
  have rhe: "round_half_even num den =
      (if 2 * r < den then m else if den < 2 * r then m + 1 else if even m then m else m + 1)"
    by (simp add: round_half_even_def Let_def m_def r_def)
  have d: "0 < rat_of_int den" using assms by simp
  have f01: "0 \<le> f" "f \<le> 1" using r d by (simp_all add: f_def)
  consider "2 * r < den" | "den < 2 * r" | "2 * r = den" by linarith
  then show ?thesis
  proof cases
    case 1
    then have "rat_of_int (2 * r) < rat_of_int den" by (simp only: of_int_less_iff)
    then have "f \<le> 1 / 2" using d by (simp add: f_def field_simps)
    moreover have "round_half_even num den = m" using 1 by (simp add: rhe)
    ultimately show ?thesis unfolding q using f01 by simp
  next
    case 2
    then have "rat_of_int den < rat_of_int (2 * r)" by (simp only: of_int_less_iff)
    then have "1 / 2 \<le> f" using d by (simp add: f_def field_simps)
    moreover have "round_half_even num den = m + 1" using 2 by (simp add: rhe)
    ultimately show ?thesis unfolding q using f01 by simp
  next
    case 3
    then have "rat_of_int (2 * r) = rat_of_int den" by simp
    then have f: "f = 1 / 2" using d by (simp add: f_def field_simps)
    have "round_half_even num den = m \<or> round_half_even num den = m + 1"
      using 3 by (simp add: rhe)
    then show ?thesis unfolding q f by auto
  qed
qed

lemma double_of_ratio_error:
  assumes "0 < p" "0 < q"
  shows "\<bar>double_of_ratio p q - rat_of_int p / rat_of_int q\<bar> \<le> (rat_of_int p / rat_of_int q) / 2 ^ 53"
proof -
  define e0 where "e0 = int (bit_length p) - int (bit_length q)"
  define e where "e = (if rat_of_int q * 2 powi e0 \<le> rat_of_int p then e0 else e0 - 1)"
  define s where "s = 52 - e"
  define m where "m = (if 0 \<le> s then round_half_even (p * 2 ^ nat s) q
               else round_half_even p (q * 2 ^ nat (- s)))"
  define x where "x = rat_of_int p / rat_of_int q"
  have d: "double_of_ratio p q = rat_of_int m * 2 powi (- s)"
    by (simp add: double_of_ratio_def Let_def e0_def e_def s_def m_def)
  have qpos: "0 < rat_of_int q" using assms(2) by simp
  have bp: "2 ^ (bit_length p - 1) \<le> p" and bq: "q < 2 ^ bit_length q"
    using bit_length_bounds assms by blast+
  have blp: "0 < bit_length p" using assms(1) by (subst bit_length.simps) simp
  have low: "rat_of_int q * 2 powi (e0 - 1) \<le> rat_of_int p"
  proof -
    have "rat_of_int q * 2 powi (e0 - 1) \<le> rat_of_int (2 ^ bit_length q) * 2 powi (e0 - 1)"
      using bq by (intro mult_right_mono) (simp_all add: less_imp_le)
    also have "\<dots> = 2 powi (int (bit_length q)) * 2 powi (e0 - 1)" by simp
    also have "\<dots> = 2 powi (int (bit_length q) + (e0 - 1))"
      by (simp add: power_int_add)
    also have "int (bit_length q) + (e0 - 1) = int (bit_length p - 1)"
      using blp by (simp add: e0_def)
    also have "(2::rat) powi int (bit_length p - 1) = rat_of_int (2 ^ (bit_length p - 1))" by simp
    also have "\<dots> \<le> rat_of_int p" using bp by (simp only: of_int_le_iff)
    finally show ?thesis .
  qed
  have le_e: "rat_of_int q * 2 powi e \<le> rat_of_int p"
    using low by (simp add: e_def)
  then have xe: "2 powi e \<le> x" using qpos by (simp add: x_def field_simps)
  have scaled: "\<bar>rat_of_int m - x * 2 powi s\<bar> \<le> 1 / 2"
  proof (cases "0 \<le> s")
    case True
    then have "(2::rat) powi s = 2 ^ nat s" by (simp add: power_int_def)
    then have "x * 2 powi s = rat_of_int (p * 2 ^ nat s) / rat_of_int q"
      by (simp add: x_def)
    moreover have "m = round_half_even (p * 2 ^ nat s) q" using True by (simp add: m_def)
    ultimately show ?thesis using round_half_even_error[OF assms(2), of "p * 2 ^ nat s"] by simp
  next
    case False
    then have "(2::rat) powi s = 1 / 2 ^ nat (- s)" by (simp add: power_int_def field_simps)
    then have "x * 2 powi s = rat_of_int p / rat_of_int (q * 2 ^ nat (- s))"
      by (simp add: x_def)
    moreover have "m = round_half_even p (q * 2 ^ nat (- s))" using False by (simp add: m_def)
    moreover have "0 < q * 2 ^ nat (- s)" using assms(2) by simp
    ultimately show ?thesis using round_half_even_error[of "q * 2 ^ nat (- s)" p] by simp
  qed
  have inv: "(2::rat) powi s * 2 powi (- s) = 1"
    by (simp add: power_int_add[symmetric])
  have "double_of_ratio p q - x = (rat_of_int m - x * 2 powi s) * 2 powi (- s)"
    unfolding d using inv by (simp add: algebra_simps)
  then have "\<bar>double_of_ratio p q - x\<bar> = \<bar>rat_of_int m - x * 2 powi s\<bar> * 2 powi (- s)"
    by (simp add: abs_mult)
  also have "\<dots> \<le> (1 / 2) * 2 powi (- s)"
    using scaled by (intro mult_right_mono) simp_all
  also have "\<dots> = 2 powi e / 2 ^ 53"
  proof -
    have "(2::rat) powi (e - 52) = 2 powi e / 2 powi 52"
      by (rule power_int_diff) simp
    moreover have "(2::rat) powi 52 = 2 ^ 52" by (simp add: power_int_def)
    moreover have "- s = e - 52" by (simp add: s_def)
    ultimately have "(2::rat) powi (- s) = 2 powi e / 2 ^ 52" by simp
    then show ?thesis by simp
  qed
  also have "\<dots> \<le> x / 2 ^ 53" using xe by (simp add: divide_right_mono)
  finally show ?thesis by (simp add: x_def)
qed

lemma to_double_error: "\<bar>to_double x - x\<bar> \<le> \<bar>x\<bar> / 2 ^ 53"
proof -
  obtain p q where pq: "quotient_of x = (p, q)" by (cases "quotient_of x")
  have q: "0 < q" using pq by (rule quotient_of_denom_pos)
  have x: "x = rat_of_int p / rat_of_int q" using pq by (rule quotient_of_div)
  consider "p = 0" | "0 < p" | "p < 0" by linarith
  then show ?thesis
  proof cases
    case 1
    then show ?thesis by (simp add: to_double_def pq x)
  next
    case 2
    then have "0 \<le> x" using q by (simp add: x)
    moreover have "to_double x = double_of_ratio p q" using 2 by (simp add: to_double_def pq)
    ultimately show ?thesis using double_of_ratio_error[OF 2 q] by (simp add: x[symmetric])
  next
    case 3
    then have neg: "x < 0" using q by (simp add: x divide_less_0_iff)
    have t: "to_double x = - double_of_ratio (- p) q" using 3 by (simp add: to_double_def pq)
    have mx: "rat_of_int (- p) / rat_of_int q = - x" by (simp add: x)
    have "\<bar>double_of_ratio (- p) q - (- x)\<bar> \<le> (- x) / 2 ^ 53"
      using double_of_ratio_error[of "- p" q] 3 q unfolding mx by simp
    moreover have "\<bar>to_double x - x\<bar> = \<bar>double_of_ratio (- p) q - (- x)\<bar>"
      unfolding t by (simp add: abs_minus_commute)
    ultimately show ?thesis using neg by simp
  qed
qed

text \<open>
  Hence a number that is not zero is rounded to a number of its sign, and the comparator
  \<^verbatim>\<open>b - a\<close> of doubles orders two doubles as their values are ordered.
\<close>

lemma to_double_sign:
  "(to_double x \<le> 0 \<longleftrightarrow> x \<le> 0) \<and> (to_double x = 0 \<longleftrightarrow> x = 0)"
proof -
  have err: "\<bar>to_double x - x\<bar> \<le> \<bar>x\<bar> / 2 ^ 53" by (rule to_double_error)
  have small: "\<bar>x\<bar> / 2 ^ 53 < \<bar>x\<bar>" if "x \<noteq> 0"
    using that by (simp add: field_simps)
  show ?thesis
  proof (cases "x = 0")
    case True
    then show ?thesis using err by simp
  next
    case False
    then show ?thesis using err small[OF False] by (auto simp: abs_if split: if_splits)
  qed
qed

lemma double_comparator: "to_double (b - a) \<le> 0 \<longleftrightarrow> b \<le> a"
  using to_double_sign[of "b - a"] by simp

subsection \<open>The scores\<close>

lemma or_zero_simps: "or_zero None = 0" "or_zero (Some v) = v"
  by (simp_all add: or_zero_def)

lemma scores_get_Nil: "scores_get [] key = None"
  by (simp add: scores_get_def)

lemma scores_get_set:
  "scores_get (scores_set key v scores) key' = (if key' = key then Some v else scores_get scores key')"
  by (induction key v scores rule: scores_set.induct) (auto simp: scores_get_def)

lemma keys_scores_set:
  "map fst (scores_set key v scores) =
   (if key \<in> fst ` set scores then map fst scores else map fst scores @ [key])"
  by (induction key v scores rule: scores_set.induct) (auto simp: image_iff)






text \<open>
  The doubles that the program holds for the two sums of this example. The first is the
  double nearest to \<open>1/60 + 1/61\<close>; the second is a neighbour of the double nearest to
  \<open>1/62 + 1/60\<close>, since each of the two quotients and their sum are rounded.
\<close>

lemma double_scores_example:
  "scores_get (double_scores [sample_row ''A'' ''a'', sample_row ''B'' ''b'', sample_row ''C'' ''c'']
                             [sample_row ''C'' ''c'', sample_row ''A'' ''a'', sample_row ''D'' ''d''])
     (result_key (sample_row ''A'' ''a'')) = Some (2382231934040787 / 72057594037927936)"
  "scores_get (double_scores [sample_row ''A'' ''a'', sample_row ''B'' ''b'', sample_row ''C'' ''c'']
                             [sample_row ''C'' ''c'', sample_row ''A'' ''a'', sample_row ''D'' ''d''])
     (result_key (sample_row ''C'' ''c'')) = Some (2363179159308389 / 72057594037927936)"
  "to_double (1 / 60 + 1 / 61) = 2382231934040787 / 72057594037927936"
  "to_double (1 / 62 + 1 / 60) = 4726358318616779 / 144115188075855872"
  by code_simp+

text \<open>
  In general the double that the program holds for a key lies within the relative error
  \<open>(1 + 2 ^ -53) ^ (2 * n) - 1\<close> of the exact sum of the key, for lists of \<open>n\<close> items
  together: every contribution costs two roundings, one of the quotient and one of the
  sum.
\<close>

lemma rounded_sum_step:
  fixes d e c :: rat
  assumes e: "0 \<le> e" and c: "0 < c"
    and close: "\<bar>d - e\<bar> \<le> e * ((1 + 1 / 2 ^ 53) ^ (2 * j) - 1)"
  shows "\<bar>to_double (d + to_double c) - (e + c)\<bar> \<le>
         (e + c) * ((1 + 1 / 2 ^ 53) ^ (2 * Suc j) - 1)"
proof -
  define u :: rat where "u = 1 / 2 ^ 53"
  define A where "A = (1 + u) ^ (2 * j)"
  define s where "s = d + to_double c"
  define t where "t = e + c"
  have u: "0 < u" by (simp add: u_def)
  have A: "1 \<le> A" unfolding A_def using u by (intro one_le_power) simp
  have t: "0 < t" using e c by (simp add: t_def)
  have rc: "\<bar>to_double c - c\<bar> \<le> u * c"
    using to_double_error[of c] c by (simp add: u_def)
  have cl: "\<bar>d - e\<bar> \<le> e * (A - 1)" using close by (simp add: A_def u_def)
  have "\<bar>s - t\<bar> \<le> \<bar>d - e\<bar> + \<bar>to_double c - c\<bar>"
    unfolding s_def t_def by linarith
  then have h1: "\<bar>s - t\<bar> \<le> e * (A - 1) + u * c" using cl rc by linarith
  have "0 \<le> e * (A * u) + c * ((A - 1) * (1 + u))"
    using e c A u by (intro add_nonneg_nonneg mult_nonneg_nonneg) simp_all
  moreover have "t * (A * (1 + u) - 1) - (e * (A - 1) + u * c) =
      e * (A * u) + c * ((A - 1) * (1 + u))"
    by (simp add: t_def algebra_simps)
  ultimately have h2: "e * (A - 1) + u * c \<le> t * (A * (1 + u) - 1)" by linarith
  have st: "\<bar>s - t\<bar> \<le> t * (A * (1 + u) - 1)" using h1 h2 by linarith
  have "\<bar>to_double s - s\<bar> \<le> u * \<bar>s\<bar>"
    using to_double_error[of s] by (simp add: u_def)
  moreover have "\<bar>s\<bar> \<le> t + \<bar>s - t\<bar>" using t by linarith
  ultimately have "\<bar>to_double s - s\<bar> \<le> u * (t + \<bar>s - t\<bar>)"
    using u by (meson mult_left_mono less_imp_le order_trans)
  then have "\<bar>to_double s - t\<bar> \<le> u * (t + \<bar>s - t\<bar>) + \<bar>s - t\<bar>" by linarith
  also have "\<dots> = u * t + (1 + u) * \<bar>s - t\<bar>" by (simp add: algebra_simps)
  also have "\<dots> \<le> u * t + (1 + u) * (t * (A * (1 + u) - 1))"
    using st u by (intro add_left_mono mult_left_mono) simp_all
  also have "\<dots> = t * (A * (1 + u) ^ 2 - 1)"
    by (simp add: algebra_simps power2_eq_square)
  also have "A * (1 + u) ^ 2 = (1 + u) ^ (2 * Suc j)"
    by (simp add: A_def power_add[symmetric])
  finally show ?thesis by (simp add: s_def t_def u_def)
qed

lemma processResults_from_close:
  assumes "0 \<le> or_zero (scores_get se key)"
    and "\<bar>or_zero (scores_get sd key) - or_zero (scores_get se key)\<bar> \<le>
         or_zero (scores_get se key) * ((1 + 1 / 2 ^ 53) ^ (2 * j) - 1)"
  shows "0 \<le> or_zero (scores_get (processResults_from (\<lambda>x. x) idx results startRank se) key) \<and>
     \<bar>or_zero (scores_get (processResults_from to_double idx results startRank sd) key) -
      or_zero (scores_get (processResults_from (\<lambda>x. x) idx results startRank se) key)\<bar> \<le>
     or_zero (scores_get (processResults_from (\<lambda>x. x) idx results startRank se) key) *
       ((1 + 1 / 2 ^ 53) ^ (2 * (j + length results)) - 1)"
  using assms
proof (induction results arbitrary: idx sd se j)
  case Nil
  then show ?case by simp
next
  case (Cons r rest)
  define c where "c = 1 / rat_of_nat (k + startRank + idx)"
  define d0 where "d0 = or_zero (scores_get sd (result_key r))"
  define e0 where "e0 = or_zero (scores_get se (result_key r))"
  define sd' where "sd' = scores_set (result_key r) (to_double (d0 + to_double c)) sd"
  define se' where "se' = scores_set (result_key r) (e0 + c) se"
  have c: "0 < c" by (simp add: c_def k_def)
  have step: "processResults_from to_double idx (r # rest) startRank sd =
        processResults_from to_double (idx + 1) rest startRank sd'"
      "processResults_from (\<lambda>x. x) idx (r # rest) startRank se =
        processResults_from (\<lambda>x. x) (idx + 1) rest startRank se'"
    by (simp_all add: Let_def sd'_def se'_def d0_def e0_def c_def)
  have "0 \<le> or_zero (scores_get se' key) \<and>
      \<bar>or_zero (scores_get sd' key) - or_zero (scores_get se' key)\<bar> \<le>
      or_zero (scores_get se' key) * ((1 + 1 / 2 ^ 53) ^ (2 * Suc j) - 1)"
  proof (cases "key = result_key r")
    case True
    have e: "0 \<le> e0" using Cons.prems(1) True by (simp add: e0_def)
    have cl: "\<bar>d0 - e0\<bar> \<le> e0 * ((1 + 1 / 2 ^ 53) ^ (2 * j) - 1)"
      using Cons.prems(2) True by (simp add: d0_def e0_def)
    have "or_zero (scores_get sd' key) = to_double (d0 + to_double c)"
      "or_zero (scores_get se' key) = e0 + c"
      using True by (simp_all add: sd'_def se'_def scores_get_set or_zero_simps)
    then show ?thesis using rounded_sum_step[OF e c cl] e c by simp
  next
    case False
    have same: "or_zero (scores_get sd' key) = or_zero (scores_get sd key)"
      "or_zero (scores_get se' key) = or_zero (scores_get se key)"
      using False by (simp_all add: sd'_def se'_def scores_get_set)
    have "(1 + 1 / 2 ^ 53 :: rat) ^ (2 * j) \<le> (1 + 1 / 2 ^ 53) ^ (2 * Suc j)"
      by (intro power_increasing) simp_all
    then have "or_zero (scores_get se key) * ((1 + 1 / 2 ^ 53) ^ (2 * j) - 1) \<le>
        or_zero (scores_get se key) * ((1 + 1 / 2 ^ 53) ^ (2 * Suc j) - 1)"
      using Cons.prems(1) by (intro mult_left_mono) simp_all
    then show ?thesis unfolding same using Cons.prems by linarith
  qed
  then have "0 \<le> or_zero (scores_get (processResults_from (\<lambda>x. x) (idx + 1) rest startRank se') key) \<and>
     \<bar>or_zero (scores_get (processResults_from to_double (idx + 1) rest startRank sd') key) -
      or_zero (scores_get (processResults_from (\<lambda>x. x) (idx + 1) rest startRank se') key)\<bar> \<le>
     or_zero (scores_get (processResults_from (\<lambda>x. x) (idx + 1) rest startRank se') key) *
       ((1 + 1 / 2 ^ 53) ^ (2 * (Suc j + length rest)) - 1)"
    by (intro Cons.IH) simp_all
  then show ?case unfolding step by simp
qed

lemma double_scores_close:
  "\<bar>or_zero (scores_get (double_scores vectorResults ftsSearchResults) key) -
    or_zero (scores_get (fused_scores vectorResults ftsSearchResults) key)\<bar> \<le>
   or_zero (scores_get (fused_scores vectorResults ftsSearchResults) key) *
     ((1 + 1 / 2 ^ 53) ^ (2 * (length vectorResults + length ftsSearchResults)) - 1)"
proof -
  let ?vd = "processResults_from to_double 0 vectorResults 0 []"
  let ?ve = "processResults_from (\<lambda>x. x) 0 vectorResults 0 []"
  have v: "0 \<le> or_zero (scores_get ?ve key) \<and>
      \<bar>or_zero (scores_get ?vd key) - or_zero (scores_get ?ve key)\<bar> \<le>
      or_zero (scores_get ?ve key) * ((1 + 1 / 2 ^ 53) ^ (2 * (0 + length vectorResults)) - 1)"
    by (intro processResults_from_close) (simp_all add: scores_get_Nil or_zero_simps)
  have "\<bar>or_zero (scores_get (processResults_from to_double 0 ftsSearchResults 0 ?vd) key) -
      or_zero (scores_get (processResults_from (\<lambda>x. x) 0 ftsSearchResults 0 ?ve) key)\<bar> \<le>
     or_zero (scores_get (processResults_from (\<lambda>x. x) 0 ftsSearchResults 0 ?ve) key) *
       ((1 + 1 / 2 ^ 53) ^ (2 * (length vectorResults + length ftsSearchResults)) - 1)"
    using processResults_from_close[of ?ve key ?vd "length vectorResults" 0 ftsSearchResults 0] v
    by simp
  then show ?thesis
    by (simp add: double_scores_def fused_scores_def scores_with_def processResults_def)
qed

subsection \<open>The order of the fused keys\<close>

text \<open>
  What holds of the entries before the pairs are rebuilt from their keys: the sort with the
  comparator \<^verbatim>\<open>b - a\<close> is the stable sort by descending double, the keys of the score map
  are distinct and stand in the order in which they were first met, whatever the
  arithmetic, and at most \<^verbatim>\<open>limit\<close> entries remain.
\<close>

lemma insert_sorted_insort_key:
  "insert_sorted (\<lambda>(_, a) (_, b). to_double (b - a)) x ys = insort_key (\<lambda>e. - snd e) x ys"
  by (induction ys) (auto simp: case_prod_beta double_comparator)

lemma js_sort_sort_key:
  "js_sort (\<lambda>(_, a) (_, b). to_double (b - a)) xs = sort_key (\<lambda>e. - snd e) xs"
  by (induction xs) (simp_all add: js_sort_def sort_key_def insert_sorted_insort_key)

lemma js_sort_descending:
  "sorted_wrt (\<lambda>x y. snd y \<le> snd x) (js_sort (\<lambda>(_, a) (_, b). to_double (b - a)) xs)"
proof -
  have "sorted (map (\<lambda>e. - snd e) (sort_key (\<lambda>e. - snd e) xs))" by (rule sorted_sort_key)
  then show ?thesis by (simp add: js_sort_sort_key sorted_map)
qed

lemma js_sort_stable:
  "filter (\<lambda>e. snd e = s) (js_sort (\<lambda>(_, a) (_, b). to_double (b - a)) xs) =
   filter (\<lambda>e. snd e = s) xs"
  using sort_key_stable[of "\<lambda>e. - snd e" "- s" xs] by (simp add: js_sort_sort_key)

lemma processResults_from_keys_distinct:
  "distinct (map fst scores) \<Longrightarrow>
   distinct (map fst (processResults_from rnd idx results startRank scores))"
  by (induction results arbitrary: idx scores) (auto simp: Let_def keys_scores_set)

lemma scores_with_keys_distinct:
  "distinct (map fst (scores_with rnd vectorResults ftsSearchResults))"
  by (simp add: scores_with_def processResults_def processResults_from_keys_distinct)

lemma scores_set_keys: "fst ` set (scores_set key v scores) = insert key (fst ` set scores)"
  by (induction key v scores rule: scores_set.induct) auto

lemma processResults_from_keys:
  "fst ` set (processResults_from rnd idx results startRank scores) =
   fst ` set scores \<union> result_key ` set results"
  by (induction results arbitrary: idx scores) (simp_all add: Let_def scores_set_keys)

lemma scores_with_keys:
  "fst ` set (scores_with rnd vectorResults ftsSearchResults) =
   result_key ` (set vectorResults \<union> set ftsSearchResults)"
  using processResults_from_keys[of rnd 0 ftsSearchResults 0
      "processResults_from rnd 0 vectorResults 0 []"]
    processResults_from_keys[of rnd 0 vectorResults 0 "[]"]
  by (auto simp: scores_with_def processResults_def)

lemma top_entries_subset:
  "set (top_entries vectorResults ftsSearchResults limit) \<subseteq>
   set (double_scores vectorResults ftsSearchResults)"
  using set_take_subset[of limit "sort_key (\<lambda>e. - snd e) (double_scores vectorResults ftsSearchResults)"]
  by (simp add: top_entries_def js_sort_sort_key)

lemma top_entries_properties:
  "length (top_entries vectorResults ftsSearchResults limit) \<le> limit"
  "distinct (map fst (top_entries vectorResults ftsSearchResults limit))"
  "sorted_wrt (\<lambda>x y. snd y \<le> snd x) (top_entries vectorResults ftsSearchResults limit)"
proof -
  let ?m = "double_scores vectorResults ftsSearchResults"
  let ?s = "js_sort (\<lambda>(_, a) (_, b). to_double (b - a)) ?m"
  show "length (top_entries vectorResults ftsSearchResults limit) \<le> limit"
    by (simp add: top_entries_def)
  have "distinct (map fst ?m)" unfolding double_scores_def by (rule scores_with_keys_distinct)
  then have "distinct (map fst ?s)"
    by (simp add: js_sort_sort_key distinct_map)
  then show "distinct (map fst (top_entries vectorResults ftsSearchResults limit))"
    by (simp add: top_entries_def take_map[symmetric])
  show "sorted_wrt (\<lambda>x y. snd y \<le> snd x) (top_entries vectorResults ftsSearchResults limit)"
    unfolding top_entries_def using js_sort_descending by (rule sorted_wrt_take)
qed

lemma js_split_title:
  assumes "0x3A \<notin> set t"
  shows "js_split key_separator (t @ key_separator @ rest) = t # js_split key_separator rest"
  using assms
proof (induction t)
  case Nil
  show ?case by (simp add: key_separator_def)
next
  case (Cons a t)
  then have "js_split key_separator (t @ key_separator @ rest) = t # js_split key_separator rest"
    by simp
  moreover have "a \<noteq> 0x3A" using Cons.prems by auto
  ultimately show ?case by (simp add: key_separator_def)
qed

lemma js_split_plain:
  assumes "0x3A \<notin> set c"
  shows "js_split key_separator c = [c]"
  using assms by (induction c) (auto simp: key_separator_def)

lemma js_split_nonempty: "sep \<noteq> [] \<Longrightarrow> js_split sep s \<noteq> []"
  by (induction sep s rule: js_split.induct) (auto split: list.splits)

lemma js_split_two_segments: "2 \<le> length (js_split key_separator (t @ key_separator @ c))"
proof (induction t)
  case Nil
  have "js_split key_separator c \<noteq> []"
    by (rule js_split_nonempty) (simp add: key_separator_def)
  then show ?case by (cases "js_split key_separator c") (simp_all add: key_separator_def)
next
  case (Cons a t)
  define s where "s = t @ key_separator @ c"
  have ne: "key_separator \<noteq> []" by (simp add: key_separator_def)
  have unfold: "js_split key_separator (a # s) =
      (if take (length key_separator) (a # s) = key_separator
       then [] # js_split key_separator (drop (length key_separator) (a # s))
       else (case js_split key_separator s of [] \<Rightarrow> [[a]] | l # ls \<Rightarrow> (a # l) # ls))"
    using ne by (subst js_split.simps(2)) (simp only: if_False)
  have "2 \<le> length (js_split key_separator (a # s))"
  proof (cases "take (length key_separator) (a # s) = key_separator")
    case True
    have "js_split key_separator (drop (length key_separator) (a # s)) \<noteq> []"
      using ne by (rule js_split_nonempty)
    then have "1 \<le> length (js_split key_separator (drop (length key_separator) (a # s)))"
      by (cases "js_split key_separator (drop (length key_separator) (a # s))") simp_all
    then show ?thesis unfolding unfold using True by simp
  next
    case False
    have "2 \<le> length (js_split key_separator s)" using Cons by (simp add: s_def)
    then show ?thesis unfolding unfold using False by (auto split: list.splits)
  qed
  then show ?case by (simp add: s_def)
qed

lemma split_key_segments:
  assumes "2 \<le> length (js_split key_separator key)"
  shows "split_key key =
     \<lparr>found_title = Some (js_split key_separator key ! 0),
      found_content = Some (js_split key_separator key ! 1)\<rparr>"
  using assms by (auto simp: split_key_def split: list.splits)

lemma first_seen_snoc:
  "rev (remdups (rev (xs @ [x]))) =
   (if x \<in> set xs then rev (remdups (rev xs)) else rev (remdups (rev xs)) @ [x])"
  by simp

lemma processResults_from_order:
  assumes "distinct (map fst scores)"
  shows "map fst (processResults_from rnd idx results startRank scores) =
         rev (remdups (rev (map fst scores @ map result_key results)))"
  using assms
proof (induction results arbitrary: idx scores)
  case Nil
  then show ?case by (simp add: distinct_remdups_id)
next
  case (Cons r rest)
  let ?m = "scores_set (result_key r)
      (rnd (or_zero (scores_get scores (result_key r)) + rnd (1 / rat_of_nat (k + startRank + idx))))
      scores"
  have d: "distinct (map fst ?m)" using Cons.prems by (auto simp: keys_scores_set)
  have "map fst ?m = rev (remdups (rev (map fst scores @ [result_key r])))"
    using Cons.prems by (simp add: keys_scores_set distinct_remdups_id)
  then have "map fst (processResults_from rnd (idx + 1) rest startRank ?m) =
      rev (remdups (rev (map result_key rest) @ remdups (rev (map fst scores @ [result_key r]))))"
    using Cons.IH[OF d, of "idx + 1"] by simp
  also have "\<dots> = rev (remdups (rev (map result_key rest) @ rev (map fst scores @ [result_key r])))"
    by (simp only: remdups_append2)
  finally show ?case by (simp add: Let_def)
qed

lemma scores_with_order:
  "map fst (scores_with rnd vectorResults ftsSearchResults) =
   rev (remdups (rev (map result_key (vectorResults @ ftsSearchResults))))"
proof -
  let ?v = "processResults_from rnd 0 vectorResults 0 []"
  have v: "map fst ?v = rev (remdups (rev (map result_key vectorResults)))"
    using processResults_from_order[of "[]" rnd 0 vectorResults 0] by simp
  have "distinct (map fst ?v)" by (simp add: processResults_from_keys_distinct)
  then have "map fst (processResults_from rnd 0 ftsSearchResults 0 ?v) =
      rev (remdups (rev (map result_key ftsSearchResults) @ remdups (rev (map result_key vectorResults))))"
    using processResults_from_order[of ?v rnd 0 ftsSearchResults 0] v by simp
  then show ?thesis
    by (simp add: scores_with_def processResults_def remdups_append2)
qed

text \<open>
  The entries that the program sorts and cuts: at most \<^verbatim>\<open>limit\<close> of them, with distinct
  keys, by descending double, and those of one double in the order in which their keys
  were first met in the vector list followed by the lexical list.
\<close>

lemma top_entries_order:
  "top_entries vectorResults ftsSearchResults limit =
     take limit (sort_key (\<lambda>e. - snd e) (double_scores vectorResults ftsSearchResults))"
  "map fst (double_scores vectorResults ftsSearchResults) =
     rev (remdups (rev (map result_key (vectorResults @ ftsSearchResults))))"
  "filter (\<lambda>e. snd e = s)
     (sort_key (\<lambda>e. - snd e) (double_scores vectorResults ftsSearchResults)) =
   filter (\<lambda>e. snd e = s) (double_scores vectorResults ftsSearchResults)"
proof -
  show "top_entries vectorResults ftsSearchResults limit =
     take limit (sort_key (\<lambda>e. - snd e) (double_scores vectorResults ftsSearchResults))"
    by (simp add: top_entries_def js_sort_sort_key)
  show "map fst (double_scores vectorResults ftsSearchResults) =
     rev (remdups (rev (map result_key (vectorResults @ ftsSearchResults))))"
    unfolding double_scores_def by (rule scores_with_order)
  show "filter (\<lambda>e. snd e = s)
     (sort_key (\<lambda>e. - snd e) (double_scores vectorResults ftsSearchResults)) =
   filter (\<lambda>e. snd e = s) (double_scores vectorResults ftsSearchResults)"
    using sort_key_stable[of "\<lambda>e. - snd e" "- s" "double_scores vectorResults ftsSearchResults"]
    by simp
qed

text \<open>
  Two sums that are equal can be held as two different doubles, and then stand in the
  order of the doubles: in the lists \<open>tie_vector\<close> and \<open>tie_fts\<close> the items \<open>X\<close> and \<open>Y\<close>
  both have the exact sum \<open>5/198\<close> (\<open>1/72 + 1/88\<close> and \<open>1/99 + 1/66\<close>) and \<open>X\<close> is met
  first, but the double of \<open>Y\<close> is the larger one, and for the limit 40, which admits
  lists of this length, \<open>Y\<close> stands before \<open>X\<close>, at the positions 18 and 19 of the sorted
  entries.
\<close>

lemma tie_exact_sums:
  "scores_get (fused_scores tie_vector tie_fts) (result_key (sample_row ''X'' ''x'')) = Some (5 / 198)"
  "scores_get (fused_scores tie_vector tie_fts) (result_key (sample_row ''Y'' ''y'')) = Some (5 / 198)"
  by code_simp+

lemma tie_first_seen:
  "filter (\<lambda>key. key = result_key (sample_row ''X'' ''x'') \<or> key = result_key (sample_row ''Y'' ''y''))
     (map fst (double_scores tie_vector tie_fts)) =
   [result_key (sample_row ''X'' ''x''), result_key (sample_row ''Y'' ''y'')]"
  unfolding top_entries_order(2) by code_simp

lemma equal_sums_ordered_as_doubles:
  "length tie_vector = 40 \<and> length tie_fts = 29 \<and>
   take 2 (drop 18 (top_entries tie_vector tie_fts 40)) =
     [(result_key (sample_row ''Y'' ''y''), 3639272426157977 / 144115188075855872),
      (result_key (sample_row ''X'' ''x''), 7278544852315953 / 288230376151711744)]"
  unfolding top_entries_order(1) by code_simp

text \<open>
  A pair without a colon in its title and in its content survives the way through the
  key, and lists of such pairs are returned without duplicates.
\<close>

lemma split_key_roundtrip:
  assumes "0x3A \<notin> set (title r)" "0x3A \<notin> set (content r)"
  shows "split_key (result_key r) =
         \<lparr>found_title = Some (title r), found_content = Some (content r)\<rparr>"
  using assms by (simp add: split_key_def result_key_def js_split_title js_split_plain)

lemma searchAndCombineResults_distinct_without_colon:
  assumes "\<forall>r\<in>set vectorResults \<union> set ftsSearchResults.
             0x3A \<notin> set (title r) \<and> 0x3A \<notin> set (content r)"
  shows "distinct (map found_key (searchAndCombineResults vectorResults ftsSearchResults limit))"
proof -
  let ?top = "top_entries vectorResults ftsSearchResults limit"
  have "found_key (case e of (key, score) \<Rightarrow> split_key key) = Some (fst e)" if "e \<in> set ?top" for e
  proof -
    have "fst e \<in> fst ` set (double_scores vectorResults ftsSearchResults)"
      using that top_entries_subset by blast
    then obtain r where r: "fst e = result_key r" "r \<in> set vectorResults \<union> set ftsSearchResults"
      unfolding double_scores_def scores_with_keys by blast
    then have "split_key (fst e) = \<lparr>found_title = Some (title r), found_content = Some (content r)\<rparr>"
      using assms by (simp add: split_key_roundtrip)
    then show ?thesis using r(1) by (cases e) (simp add: found_key_def result_key_def)
  qed
  then have "map found_key (searchAndCombineResults vectorResults ftsSearchResults limit) =
      map (\<lambda>e. Some (fst e)) ?top"
    by (simp add: searchAndCombineResults_def)
  also have "\<dots> = map Some (map fst ?top)" by simp
  finally have "map found_key (searchAndCombineResults vectorResults ftsSearchResults limit) =
      map Some (map fst ?top)" .
  moreover have "distinct (map Some (map fst ?top))"
    using top_entries_properties(2)[of vectorResults ftsSearchResults limit]
    by (subst distinct_map) simp
  ultimately show ?thesis by simp
qed

text \<open>
  Claim C6: the fused output is a list of at most \<^verbatim>\<open>limit\<close> items without duplicate
  identity keys, by descending score, ties in the order of first encounter. The merger
  removes duplicates by key, and the entries it sorts and cuts are at most \<^verbatim>\<open>limit\<close>, have
  distinct keys and stand by descending double, those of one double in the order of first
  encounter (\<open>top_entries_properties\<close>, \<open>top_entries_order\<close>). The pairs it returns lose
  the distinctness: two chunks of one note whose texts begin alike up to their first
  \<^verbatim>\<open>"::"\<close> come back as the same pair twice, since \<^verbatim>\<open>key.split("::")\<close> cuts the content
  there.
\<close>

theorem searchAndCombineResults_duplicate_pairs:
  "searchAndCombineResults
     [sample_row ''C++'' ''std::map'', sample_row ''C++'' ''std::set''] [] 20 =
     [\<lparr>found_title = Some (js ''C++''), found_content = Some (js ''std'')\<rparr>,
      \<lparr>found_title = Some (js ''C++''), found_content = Some (js ''std'')\<rparr>] \<and>
   \<not> distinct (map found_key (searchAndCombineResults
     [sample_row ''C++'' ''std::map'', sample_row ''C++'' ''std::set''] [] 20))"
proof -
  let ?a = "sample_row ''C++'' ''std::map''" and ?b = "sample_row ''C++'' ''std::set''"
  let ?f = "\<lparr>found_title = Some (js ''C++''), found_content = Some (js ''std'')\<rparr>"
  have ka: "split_key (result_key ?a) = ?f"
    by (simp add: sample_row_def result_key_def key_separator_def split_key_def js_def)
  have kb: "split_key (result_key ?b) = ?f"
    by (simp add: sample_row_def result_key_def key_separator_def split_key_def js_def)
  have ne: "result_key ?b \<noteq> result_key ?a"
    by (simp add: sample_row_def result_key_def key_separator_def js_def)
  have scores: "double_scores [?a, ?b] [] =
      [(result_key ?a, to_double (0 + to_double (1 / 60))),
       (result_key ?b, to_double (0 + to_double (1 / 61)))]"
    using ne
    by (simp add: double_scores_def scores_with_def processResults_def Let_def scores_get_def
        or_zero_def k_def)
  have "searchAndCombineResults [?a, ?b] [] 20 = [?f, ?f]"
    unfolding searchAndCombineResults_def top_entries_def scores
    by (simp add: js_sort_def ka kb)
  then show ?thesis by simp
qed

text \<open>
  Claim C10: the identity key is \<^verbatim>\<open>title + "::" + content\<close>, and every returned pair
  consists of the first two segments of the split of a key at \<^verbatim>\<open>"::"\<close>. Hence a content
  \<open>c1 @ "::" @ c2\<close> (no colon in the title or in \<open>c1\<close>) comes back as \<open>c1\<close>, and the pairs
  \<open>(t @ "::" @ m, c)\<close> and \<open>(t, m @ "::" @ c)\<close> have one key and one entry, with the sum of
  both contributions.
\<close>

theorem identity_key_lossy:
  "result_key r = title r @ js ''::'' @ content r \<and>
   searchAndCombineResults vectorResults ftsSearchResults limit =
     map (\<lambda>(key, score).
            \<lparr>found_title = Some (js_split (js ''::'') key ! 0),
             found_content = Some (js_split (js ''::'') key ! 1)\<rparr>)
         (top_entries vectorResults ftsSearchResults limit) \<and>
   (0x3A \<notin> set (title r) \<and> 0x3A \<notin> set c1 \<and> content r = c1 @ js ''::'' @ c2 \<longrightarrow>
      searchAndCombineResults [r] [] (Suc n) =
        [\<lparr>found_title = Some (title r), found_content = Some c1\<rparr>]) \<and>
   (title r1 = t @ js ''::'' @ m \<and> content r1 = c \<and> title r2 = t \<and> content r2 = m @ js ''::'' @ c \<longrightarrow>
      result_key r1 = result_key r2 \<and>
      fused_scores [r1] [r2] = [(result_key r1, 1 / 60 + 1 / 60)])"
proof (intro conjI impI)
  have sep: "js ''::'' = key_separator" by (simp add: js_def key_separator_def)
  show "result_key r = title r @ js ''::'' @ content r"
    by (simp add: result_key_def sep)
  show "searchAndCombineResults vectorResults ftsSearchResults limit =
     map (\<lambda>(key, score).
            \<lparr>found_title = Some (js_split (js ''::'') key ! 0),
             found_content = Some (js_split (js ''::'') key ! 1)\<rparr>)
         (top_entries vectorResults ftsSearchResults limit)"
    unfolding searchAndCombineResults_def sep
  proof (rule map_cong[OF refl])
    fix e
    assume "e \<in> set (top_entries vectorResults ftsSearchResults limit)"
    then have "fst e \<in> fst ` set (double_scores vectorResults ftsSearchResults)"
      using top_entries_subset by blast
    then obtain x where "fst e = result_key x"
      unfolding double_scores_def scores_with_keys by blast
    then have "2 \<le> length (js_split key_separator (fst e))"
      by (simp add: result_key_def js_split_two_segments)
    then show "(case e of (key, uu) \<Rightarrow> split_key key) =
        (case e of (key, score) \<Rightarrow>
           \<lparr>found_title = Some (js_split key_separator key ! 0),
            found_content = Some (js_split key_separator key ! 1)\<rparr>)"
      by (cases e) (simp add: split_key_segments)
  qed
next
  have sep: "js ''::'' = key_separator" by (simp add: js_def key_separator_def)
  assume a: "0x3A \<notin> set (title r) \<and> 0x3A \<notin> set c1 \<and> content r = c1 @ js ''::'' @ c2"
  then have "js_split key_separator (result_key r) = title r # c1 # js_split key_separator c2"
    by (simp add: result_key_def sep js_split_title)
  then have "split_key (result_key r) = \<lparr>found_title = Some (title r), found_content = Some c1\<rparr>"
    by (simp add: split_key_def)
  then show "searchAndCombineResults [r] [] (Suc n) =
      [\<lparr>found_title = Some (title r), found_content = Some c1\<rparr>]"
    by (simp add: searchAndCombineResults_def top_entries_def double_scores_def scores_with_def
        processResults_def js_sort_def Let_def)
next
  have sep: "js ''::'' = key_separator" by (simp add: js_def key_separator_def)
  assume a: "title r1 = t @ js ''::'' @ m \<and> content r1 = c \<and> title r2 = t \<and>
      content r2 = m @ js ''::'' @ c"
  then show eq: "result_key r1 = result_key r2" by (simp add: result_key_def sep)
  from eq show "fused_scores [r1] [r2] = [(result_key r1, 1 / 60 + 1 / 60)]"
    by (simp add: fused_scores_def scores_with_def processResults_def Let_def scores_get_def
        or_zero_def k_def)
qed

theorem identity_key_lossy_witness:
  "content (sample_row ''C++'' ''std::map'') = js ''std'' @ js ''::'' @ js ''map'' \<and>
   searchAndCombineResults [sample_row ''C++'' ''std::map''] [] 20 =
     [\<lparr>found_title = Some (js ''C++''), found_content = Some (js ''std'')\<rparr>] \<and>
   Some (content (sample_row ''C++'' ''std::map'')) \<noteq> Some (js ''std'') \<and>
   sample_row ''a::b'' ''c'' \<noteq> sample_row ''a'' ''b::c'' \<and>
   result_key (sample_row ''a::b'' ''c'') = result_key (sample_row ''a'' ''b::c'') \<and>
   fused_scores [sample_row ''a::b'' ''c''] [sample_row ''a'' ''b::c''] =
     [(js ''a::b::c'', 1 / 60 + 1 / 60)]"
proof -
  have h1: "0x3A \<notin> set (title (sample_row ''C++'' ''std::map'')) \<and> 0x3A \<notin> set (js ''std'') \<and>
      content (sample_row ''C++'' ''std::map'') = js ''std'' @ js ''::'' @ js ''map''"
    by (simp add: sample_row_def js_def)
  have h2: "title (sample_row ''a::b'' ''c'') = js ''a'' @ js ''::'' @ js ''b'' \<and>
      content (sample_row ''a::b'' ''c'') = js ''c'' \<and>
      title (sample_row ''a'' ''b::c'') = js ''a'' \<and>
      content (sample_row ''a'' ''b::c'') = js ''b'' @ js ''::'' @ js ''c''"
    by (simp add: sample_row_def js_def)
  have k: "result_key (sample_row ''a::b'' ''c'') = js ''a::b::c''"
    by (simp add: result_key_def sample_row_def js_def key_separator_def)
  have ne: "sample_row ''a::b'' ''c'' \<noteq> sample_row ''a'' ''b::c''"
    "Some (content (sample_row ''C++'' ''std::map'')) \<noteq> Some (js ''std'')"
    "title (sample_row ''C++'' ''std::map'') = js ''C++''"
    by (simp_all add: sample_row_def js_def)
  show ?thesis
    using h1 h2 k ne
      identity_key_lossy[of "sample_row ''C++'' ''std::map''" "[]" "[]" 0 "js ''std''" "js ''map''" 19
        "sample_row ''a::b'' ''c''" "js ''a''" "js ''b''" "js ''c''" "sample_row ''a'' ''b::c''"]
    by (simp del: One_nat_def)
qed

section \<open>Properties of the indexing\<close>

lemma note_title_nonempty: "note_title (note_of_row ungzip row) \<noteq> []"
  by (simp add: note_of_row_def or_string_def js_def)

lemma filter_titled:
  "filter (\<lambda>n. note_title n \<noteq> []) (getAllNotesWithContent ungzip rows) =
   getAllNotesWithContent ungzip rows"
  by (simp add: getAllNotesWithContent_def note_title_nonempty)

lemma push_content_chunks_entries:
  "push_content_chunks f nt cs (chunks, n) =
   (chunks @ map (\<lambda>(j, c). \<lparr>chunk_id = decimal j, title = note_title nt, content = c,
                    creation_date = f (creationDate nt),
                    modification_date = f (modificationDate nt)\<rparr>) (enumerate n cs),
    n + length cs)"
  by (induction cs arbitrary: chunks n) simp_all

lemma index_note_entries:
  "index_note f nt cs (chunks, n) =
   (chunks @ note_entries f nt cs n, n + length (note_entries f nt cs n))"
  by (simp add: index_note_def note_entries_def push_content_chunks_entries)

lemma index_loop_groups:
  assumes "index_loop f config nts (chunks, n) = Some st"
  shows "\<exists>groups. st = (chunks @ concat groups, n + length (concat groups)) \<and>
           length groups = length nts \<and>
           (\<forall>i<length nts. \<exists>cs.
              chunkText (note_content (nts ! i))
                \<lparr>maxChunkSize = chunkSize config, overlap = chunkOverlap config\<rparr> = Some cs \<and>
              groups ! i = note_entries f (nts ! i) cs (n + length (concat (take i groups))))"
  using assms
proof (induction nts arbitrary: chunks n)
  case Nil
  then show ?case by simp
next
  case (Cons nt rest)
  let ?opts = "\<lparr>maxChunkSize = chunkSize config, overlap = chunkOverlap config\<rparr>"
  obtain cs where cs: "chunkText (note_content nt) ?opts = Some cs"
    using Cons.prems by (cases "chunkText (note_content nt) ?opts") simp_all
  define new where "new = note_entries f nt cs n"
  have "index_loop f config rest (chunks @ new, n + length new) = Some st"
    using Cons.prems cs by (simp add: index_note_entries new_def)
  then obtain groups where g:
    "st = ((chunks @ new) @ concat groups, (n + length new) + length (concat groups))"
    "length groups = length rest"
    "\<forall>i<length rest. \<exists>cs. chunkText (note_content (rest ! i)) ?opts = Some cs \<and>
       groups ! i = note_entries f (rest ! i) cs ((n + length new) + length (concat (take i groups)))"
    using Cons.IH[of "chunks @ new" "n + length new"] by blast
  have "\<forall>i<length (nt # rest). \<exists>cs.
      chunkText (note_content ((nt # rest) ! i)) ?opts = Some cs \<and>
      (new # groups) ! i =
        note_entries f ((nt # rest) ! i) cs (n + length (concat (take i (new # groups))))"
  proof (intro allI impI)
    fix i
    assume i: "i < length (nt # rest)"
    show "\<exists>cs. chunkText (note_content ((nt # rest) ! i)) ?opts = Some cs \<and>
        (new # groups) ! i =
          note_entries f ((nt # rest) ! i) cs (n + length (concat (take i (new # groups))))"
    proof (cases i)
      case 0
      then show ?thesis using cs by (simp add: new_def)
    next
      case (Suc j)
      then show ?thesis using i g(3) by (simp add: add.assoc)
    qed
  qed
  then show ?case using g(1,2) by (intro exI[of _ "new # groups"]) simp
qed

lemma index_loop_returns:
  assumes "\<forall>nt\<in>set nts. chunkText (note_content nt)
      \<lparr>maxChunkSize = chunkSize config, overlap = chunkOverlap config\<rparr> \<noteq> None"
  shows "\<exists>st. index_loop f config nts st0 = Some st"
  using assms
proof (induction nts arbitrary: st0)
  case Nil
  show ?case by simp
next
  case (Cons nt rest)
  obtain cs where cs: "chunkText (note_content nt)
      \<lparr>maxChunkSize = chunkSize config, overlap = chunkOverlap config\<rparr> = Some cs"
    using Cons.prems by auto
  have "\<exists>st. index_loop f config rest (index_note f nt cs st0) = Some st"
    using Cons.IH Cons.prems by simp
  then show ?case using cs by simp
qed

text \<open>
  The entries that \<^verbatim>\<open>indexNotes\<close> hands to the table, when it returns, are the
  concatenation of one group of entries per note, in the order of the notes, and the group
  of a note whose content yields no chunks is exactly one entry, whose content is the title
  of the note (the group of any other note has one entry per chunk). A note whose raw
  content is absent is a note without chunks, for every configuration. \<^verbatim>\<open>indexNotes\<close>
  returns whenever the configured chunk size is positive. For the note \<open>Groceries\<close>, which
  has no body, and the default configuration, the table receives the one entry with the
  content \<open>Groceries\<close>.
\<close>

lemma indexNotes_groups:
  "(0 < chunkSize config \<longrightarrow> (\<exists>chunks. indexNotes f config ungzip rows = Some chunks)) \<and>
   (\<forall>chunks. indexNotes f config ungzip rows = Some chunks \<longrightarrow>
      (\<exists>groups. chunks = concat groups \<and> length groups = length rows \<and>
         (\<forall>i<length rows. \<exists>contentChunks.
            chunkText (note_content (note_of_row ungzip (rows ! i)))
              \<lparr>maxChunkSize = chunkSize config, overlap = chunkOverlap config\<rparr> =
              Some contentChunks \<and>
            groups ! i =
              note_entries f (note_of_row ungzip (rows ! i)) contentChunks
                (length (concat (take i groups)))))) \<and>
   note_entries f nt [] n =
     [\<lparr>chunk_id = decimal n, title = note_title nt, content = note_title nt,
       creation_date = f (creationDate nt), modification_date = f (modificationDate nt)\<rparr>] \<and>
   (row_content row = None \<longrightarrow>
      chunkText (note_content (note_of_row ungzip row))
        \<lparr>maxChunkSize = chunkSize config, overlap = chunkOverlap config\<rparr> = Some [])"
proof (intro conjI impI allI)
  let ?opts = "\<lparr>maxChunkSize = chunkSize config, overlap = chunkOverlap config\<rparr>"
  assume pos: "0 < chunkSize config"
  have "\<forall>nt\<in>set (getAllNotesWithContent ungzip rows). chunkText (note_content nt) ?opts \<noteq> None"
  proof
    fix nt :: AppleNote
    have "\<exists>cs. chunkText (note_content nt) ?opts = Some cs"
      using pos chunk_loop_total[of "chunkSize config" 0 "[]" "note_content nt" "chunkOverlap config"]
      by (auto simp: chunkText_def)
    then show "chunkText (note_content nt) ?opts \<noteq> None" by auto
  qed
  then obtain st where "index_loop f config (getAllNotesWithContent ungzip rows) ([], 0) = Some st"
    using index_loop_returns by blast
  then show "\<exists>chunks. indexNotes f config ungzip rows = Some chunks"
    by (simp add: indexNotes_def filter_titled)
next
  fix chunks
  assume "indexNotes f config ungzip rows = Some chunks"
  then obtain st where st: "index_loop f config (getAllNotesWithContent ungzip rows) ([], 0) = Some st"
    "chunks = fst st"
    by (auto simp: indexNotes_def filter_titled)
  obtain groups where g: "st = ([] @ concat groups, 0 + length (concat groups))"
    "length groups = length (getAllNotesWithContent ungzip rows)"
    "\<forall>i<length (getAllNotesWithContent ungzip rows). \<exists>cs.
       chunkText (note_content (getAllNotesWithContent ungzip rows ! i))
         \<lparr>maxChunkSize = chunkSize config, overlap = chunkOverlap config\<rparr> = Some cs \<and>
       groups ! i = note_entries f (getAllNotesWithContent ungzip rows ! i) cs
         (0 + length (concat (take i groups)))"
    using index_loop_groups[OF st(1)] by blast
  show "\<exists>groups. chunks = concat groups \<and> length groups = length rows \<and>
         (\<forall>i<length rows. \<exists>contentChunks.
            chunkText (note_content (note_of_row ungzip (rows ! i)))
              \<lparr>maxChunkSize = chunkSize config, overlap = chunkOverlap config\<rparr> =
              Some contentChunks \<and>
            groups ! i =
              note_entries f (note_of_row ungzip (rows ! i)) contentChunks
                (length (concat (take i groups))))"
    using g st(2) by (intro exI[of _ groups]) (simp add: getAllNotesWithContent_def)
next
  show "note_entries f nt [] n =
     [\<lparr>chunk_id = decimal n, title = note_title nt, content = note_title nt,
       creation_date = f (creationDate nt), modification_date = f (modificationDate nt)\<rparr>]"
    by (simp add: note_entries_def)
next
  assume "row_content row = None"
  then show "chunkText (note_content (note_of_row ungzip row))
      \<lparr>maxChunkSize = chunkSize config, overlap = chunkOverlap config\<rparr> = Some []"
    by (simp add: note_of_row_def parseNoteContent_def chunkText_def)
qed


lemma indexNotes_groups_sample:
  "0 < chunkSize sample_config \<and> row_content groceries_row = None \<and>
   indexNotes (\<lambda>d. []) sample_config (\<lambda>b. Inl Thrown) [groceries_row] =
     Some [\<lparr>chunk_id = js ''0'', title = js ''Groceries'', content = js ''Groceries'',
            creation_date = [], modification_date = []\<rparr>]"
proof -
  let ?f = "\<lambda>d::int. [] :: jsstring"
  let ?u = "\<lambda>b::byte list. Inl Thrown :: js_error + byte list"
  let ?opts = "\<lparr>maxChunkSize = chunkSize sample_config, overlap = chunkOverlap sample_config\<rparr>"
  let ?nt = "note_of_row ?u groceries_row"
  have pos: "0 < chunkSize sample_config" by (simp add: sample_config_def)
  have absent: "row_content groceries_row = None" by (simp add: groceries_row_def)
  note inst = indexNotes_groups[of sample_config ?f ?u "[groceries_row]" ?nt 0
      groceries_row]
  obtain chunks where c: "indexNotes ?f sample_config ?u [groceries_row] = Some chunks"
    using inst pos by blast
  have empty: "chunkText (note_content ?nt) ?opts = Some []"
    using inst absent by blast
  obtain groups where g: "chunks = concat groups" "length groups = 1"
    "\<exists>cs. chunkText (note_content ?nt) ?opts = Some cs \<and>
       groups ! 0 = note_entries ?f ?nt cs (length (concat (take 0 groups)))"
    using inst c by auto
  have g0: "groups ! 0 = note_entries ?f ?nt [] 0" using g(3) empty by simp
  have "groups = [groups ! 0]"
    using g(2) by (cases groups) simp_all
  then have "chunks = groups ! 0" using g(1) by (metis concat.simps(1,2) append_Nil2)
  moreover have "decimal 0 = js ''0''" by (simp add: decimal.simps js_def)
  moreover have "note_title ?nt = js ''Groceries''"
    by (simp add: note_of_row_def groceries_row_def or_string_def js_def)
  ultimately show ?thesis using c g0 inst pos absent by simp
qed

text \<open>
  Claim C9: during indexing, every note whose content yields no chunks, in particular a
  note whose raw content is absent, gets exactly one record, whose content is the title of
  the note, never an empty set of records. The loop of \<^verbatim>\<open>indexNotes\<close> is written for it
  (its comment: \<^verbatim>\<open>If no chunks (empty content), create one entry with the title\<close>), and
  every run that returns has handed that record to the table (\<open>indexNotes_groups\<close>
  above). With \<^verbatim>\<open>CHUNK_SIZE=0\<close> a run need not return, because the loop of the chunker
  does not advance (see C3): for the notes \<open>Groceries\<close>, without a body, and \<open>Todo\<close>, with
  the body \<^verbatim>\<open>a\<close>, the first note yields no chunks, the call of \<^verbatim>\<open>chunkText\<close> for the
  second note does not return, \<^verbatim>\<open>notesTable.add\<close> is never reached, and the table
  receives no record for the note \<open>Groceries\<close>.
\<close>

theorem indexNotes_zero_size_no_record:
  "row_content groceries_row = None \<and>
   chunkText (note_content (note_of_row ungzip groceries_row))
     \<lparr>maxChunkSize = chunkSize zero_config, overlap = chunkOverlap zero_config\<rparr> = Some [] \<and>
   chunkText (note_content (note_of_row ungzip body_row))
     \<lparr>maxChunkSize = chunkSize zero_config, overlap = chunkOverlap zero_config\<rparr> = None \<and>
   indexNotes toLocaleString zero_config ungzip [groceries_row, body_row] = None"
proof -
  let ?opts = "\<lparr>maxChunkSize = chunkSize zero_config, overlap = chunkOverlap zero_config\<rparr>"
  have absent: "row_content groceries_row = None" by (simp add: groceries_row_def)
  have empty: "chunkText (note_content (note_of_row ungzip groceries_row)) ?opts = Some []"
    using absent by (simp add: note_of_row_def parseNoteContent_def chunkText_def)
  have body: "note_content (note_of_row ungzip body_row) = js ''a''"
    by (simp add: note_of_row_def body_row_def parseNoteContent_def parseNoteContent_try_def
        gzip_magic_def toString_utf8_def utf16_units_def js_def)
  have "\<exists>c\<in>set (js ''a''). \<not> isWhiteSpace c" by (simp add: js_def isWhiteSpace_def)
  then have "chunkText (js ''a'') \<lparr>maxChunkSize = 0, overlap = 0\<rparr> = None"
    by (rule chunkText_zero_size_never_returns) simp
  then have stuck: "chunkText (note_content (note_of_row ungzip body_row)) ?opts = None"
    by (simp add: body zero_config_def)
  have loop: "index_loop toLocaleString zero_config
      [note_of_row ungzip groceries_row, note_of_row ungzip body_row] ([], 0) = None"
    by (simp add: empty stuck)
  have titled: "filter (\<lambda>n. note_title n \<noteq> [])
      (getAllNotesWithContent ungzip [groceries_row, body_row]) =
      [note_of_row ungzip groceries_row, note_of_row ungzip body_row]"
    unfolding filter_titled by (simp add: getAllNotesWithContent_def)
  have "indexNotes toLocaleString zero_config ungzip [groceries_row, body_row] = None"
    unfolding indexNotes_def titled loop by simp
  then show ?thesis using absent empty stuck by simp
qed

end
